theory Spec2Isabelle
  imports Complex_Main "HOL-Library.AList" "HOL-Library.Multiset"
begin

section \<open>The frame tree store of the stack plugin\<close>

text \<open>
  The plugin keeps one aggregate, \<open>StackState\<close>, in a JSON file.  Every method of
  \<open>FrameStateManager\<close> loads the aggregate, changes it and writes it back, so a method is a
  function from the stored aggregate to the stored aggregate.  The clock (\<open>Date.now()\<close>) is an
  argument \<open>now\<close>: one call of a method reads the clock several times, and the model takes all
  readings of one call to be the same millisecond.

  \<open>Record<string, FrameMetadata>\<close> is an association list in the order of \<open>Object.values\<close>
  (insertion order; session ids are never integer-like keys).  Writing an existing key keeps
  its position, writing a new key appends: this is \<open>AList.update\<close>.  Every write of the source
  has the form \<open>state.frames[frame.sessionID] = frame\<close>, so an object of the source is
  identified by its key.

  Strings are lists of characters; the model reads the source's strings as ASCII, one
  character per UTF-16 unit.
\<close>

subsection \<open>Types\<close>

datatype FrameStatus = Planned | InProgress | Completed | Failed | Blocked | Invalidated

text \<open>
  \<open>successCriteriaCompacted\<close> is declared \<open>string\<close>, but the three-argument calls of
  \<open>createFrame\<close> leave it \<open>undefined\<close>; \<open>None\<close> is \<open>undefined\<close> throughout.
\<close>

record FrameMetadata =
  sessionID :: string
  parentSessionID :: "string option"
  status :: FrameStatus
  title :: string
  successCriteria :: string
  successCriteriaCompacted :: "string option"
  results :: "string option"
  resultsCompacted :: "string option"
  createdAt :: int
  updatedAt :: int
  artifacts :: "string list"
  decisions :: "string list"
  logPath :: "string option"
  invalidationReason :: "string option"
  invalidatedAt :: "int option"
  plannedChildren :: "string list option"

type_synonym FrameMap = "(string \<times> FrameMetadata) list"

record StackState =
  version :: nat
  frames :: FrameMap
  activeFrameID :: "string option"
  rootFrameIDs :: "string list"
  stateUpdatedAt :: int

text \<open>JavaScript truthiness of an optional string: \<open>undefined\<close> and \<open>""\<close> are falsy.\<close>

definition truthy :: "string option \<Rightarrow> bool" where
  "truthy s = (case s of None \<Rightarrow> False | Some t \<Rightarrow> t \<noteq> [])"

definition getDefaultState :: "int \<Rightarrow> StackState" where
  "getDefaultState now =
     \<lparr>version = 1, frames = [], activeFrameID = None, rootFrameIDs = [], stateUpdatedAt = now\<rparr>"

text \<open>
  \<open>saveFrame\<close> stamps the frame object it writes (\<open>frame.updatedAt = Date.now()\<close>); the object
  is the one held in \<open>state.frames\<close>, so the stamp reaches the aggregate.  \<open>saveState\<close> stamps
  the aggregate.  The files themselves are not modelled.
\<close>

definition saveFrame :: "int \<Rightarrow> FrameMetadata \<Rightarrow> FrameMetadata" where
  "saveFrame now frame = frame\<lparr>updatedAt := now\<rparr>"

definition saveState :: "int \<Rightarrow> StackState \<Rightarrow> StackState" where
  "saveState now state = state\<lparr>stateUpdatedAt := now\<rparr>"

definition frameValues :: "FrameMap \<Rightarrow> FrameMetadata list" where
  "frameValues fs = map snd fs"

subsection \<open>Creating frames\<close>

definition newFrame ::
  "int \<Rightarrow> string \<Rightarrow> string \<Rightarrow> string \<Rightarrow> string option \<Rightarrow> string option \<Rightarrow> FrameStatus
     \<Rightarrow> string list option \<Rightarrow> FrameMetadata" where
  "newFrame now sid ttl criteria compacted parent st planned =
     \<lparr>sessionID = sid, parentSessionID = parent, status = st, title = ttl,
      successCriteria = criteria, successCriteriaCompacted = compacted,
      results = None, resultsCompacted = None, createdAt = now, updatedAt = now,
      artifacts = [], decisions = [], logPath = None, invalidationReason = None,
      invalidatedAt = None, plannedChildren = planned\<rparr>"

text \<open>\<open>createFrame\<close> returns the frame and the aggregate it saved.\<close>

definition createFrame ::
  "StackState \<Rightarrow> int \<Rightarrow> string \<Rightarrow> string \<Rightarrow> string \<Rightarrow> string option \<Rightarrow> string option
     \<Rightarrow> FrameMetadata \<times> StackState" where
  "createFrame state now sid ttl criteria compacted parent =
     (let frame = newFrame now sid ttl criteria compacted parent InProgress None;
          state1 = state\<lparr>frames := AList.update sid frame (frames state),
                         activeFrameID := Some sid\<rparr>;
          state2 = (if \<not> truthy parent
                    then state1\<lparr>rootFrameIDs := rootFrameIDs state1 @ [sid]\<rparr>
                    else state1)
      in (saveFrame now frame, saveState now state2))"

definition getFrame :: "StackState \<Rightarrow> string \<Rightarrow> FrameMetadata option" where
  "getFrame state sid = map_of (frames state) sid"

text \<open>\<open>sessionID.substring(0, 8)\<close>.\<close>

definition substring8 :: "string \<Rightarrow> string" where
  "substring8 s = take 8 s"

definition defaultCriteria :: string where
  "defaultCriteria = ''(Auto-created root frame - set criteria with a planning tool)''"

definition ensureFrame ::
  "StackState \<Rightarrow> int \<Rightarrow> string \<Rightarrow> string option \<Rightarrow> FrameMetadata \<times> StackState" where
  "ensureFrame state now sid sessionTitle =
     (case getFrame state sid of
        Some existing \<Rightarrow> (existing, state)
      | None \<Rightarrow>
          (let ttl = (if truthy sessionTitle then the sessionTitle
                      else ''Session '' @ substring8 sid)
           in createFrame state now sid ttl defaultCriteria (Some defaultCriteria) None))"

text \<open>
  \<open>createPlannedFrame\<close>: the parent's \<open>plannedChildren\<close> is looked up after the new frame is
  stored, so a frame planned under its own id lists itself.
\<close>

definition createPlannedFrame ::
  "StackState \<Rightarrow> int \<Rightarrow> string \<Rightarrow> string \<Rightarrow> string \<Rightarrow> string option \<Rightarrow> string option
     \<Rightarrow> FrameMetadata \<times> StackState" where
  "createPlannedFrame state now sid ttl criteria compacted parent =
     (let frame = newFrame now sid ttl criteria compacted parent Planned (Some []);
          fs1 = AList.update sid frame (frames state);
          state1 = state\<lparr>frames := fs1\<rparr>;
          state2 =
            (if \<not> truthy parent
             then state1\<lparr>rootFrameIDs := rootFrameIDs state1 @ [sid]\<rparr>
             else (case map_of fs1 (the parent) of
                     None \<Rightarrow> state1
                   | Some p \<Rightarrow>
                       (let kids = (case plannedChildren p of None \<Rightarrow> [] | Some ks \<Rightarrow> ks);
                            p' = saveFrame now (p\<lparr>plannedChildren := Some (kids @ [sid])\<rparr>)
                        in state1\<lparr>frames := AList.update (the parent) p' fs1\<rparr>)));
          frame' = (case map_of (frames state2) sid of None \<Rightarrow> frame | Some f \<Rightarrow> f)
      in (saveFrame now frame', saveState now (state2\<lparr>frames := AList.update sid (saveFrame now frame') (frames state2)\<rparr>)))"

subsection \<open>Completing frames\<close>

text \<open>
  \<open>completeFrame\<close> returns the parent id (\<open>undefined\<close> also when the frame is unknown).
  Callers pass three or four arguments, so both result texts may be \<open>undefined\<close>.
\<close>

definition completeFrame ::
  "StackState \<Rightarrow> int \<Rightarrow> string \<Rightarrow> FrameStatus \<Rightarrow> string option \<Rightarrow> string option
     \<Rightarrow> string option \<times> StackState" where
  "completeFrame state now sid st res resCompacted =
     (case map_of (frames state) sid of
        None \<Rightarrow> (None, state)
      | Some frame \<Rightarrow>
          (let frame' = frame\<lparr>status := st, results := res, resultsCompacted := resCompacted,
                               updatedAt := now\<rparr>;
               parentID = parentSessionID frame'
           in (parentID,
               saveState now
                 (state\<lparr>activeFrameID := parentID,
                        frames := AList.update sid (saveFrame now frame') (frames state)\<rparr>))))"


subsection \<open>Runtime state\<close>

text \<open>
  The part of the process-wide \<open>runtime\<close> object that the modelled functions read or write:
  the current session, the context cache (a \<open>Map\<close>, in insertion order) with its time to
  live, and the subagent tracker.
\<close>

record CacheEntry =
  contextText :: string
  cacheCreatedAt :: int
  cacheSessionID :: string
  stateHash :: string
  tokenCount :: int

record SubagentConfig =
  enabled :: bool
  minDuration :: int
  minMessageCount :: int
  subagentPatterns :: "string list"
  autoCompleteOnIdle :: bool
  idleCompletionDelay :: int

record SubagentSession =
  subSessionID :: string
  subParentSessionID :: string
  subTitle :: string
  subCreatedAt :: int
  lastActivityAt :: int
  isSubagent :: bool
  hasFrame :: bool
  messageCount :: int
  isIdle :: bool
  isCompleted :: bool

record SubagentStats =
  totalDetected :: nat
  framesCreated :: nat
  skippedByHeuristics :: nat
  autoCompleted :: nat
  manuallyCompleted :: nat

record RuntimeState =
  currentSessionID :: "string option"
  contextCache :: "(string \<times> CacheEntry) list"
  cacheTTL :: int
  subagentConfig :: SubagentConfig
  subagentSessions :: "(string \<times> SubagentSession) list"
  subagentStats :: SubagentStats

definition invalidateCache :: "RuntimeState \<Rightarrow> string \<Rightarrow> RuntimeState" where
  "invalidateCache rt sid = rt\<lparr>contextCache := AList.delete sid (contextCache rt)\<rparr>"

subsection \<open>The command \<open>stack_frame_pop\<close>\<close>

text \<open>
  A command returns a string in every case; the model separates the returns that start with
  \<open>Error:\<close> (\<open>Inl\<close>) from the success text (\<open>Inr\<close>).
\<close>

record PopArgs =
  frameID :: "string option"
  popStatus :: FrameStatus
  popResults :: string
  popResultsCompacted :: string

definition isSpace :: "char \<Rightarrow> bool" where
  "isSpace c = (c = CHR '' '' \<or> c = CHR 0x09 \<or> c = CHR 0x0A \<or> c = CHR 0x0B
                \<or> c = CHR 0x0C \<or> c = CHR 0x0D)"

text \<open>\<open>!s || s.trim().length === 0\<close>\<close>

definition isBlank :: "string \<Rightarrow> bool" where
  "isBlank s = list_all isSpace s"

fun statusText :: "FrameStatus \<Rightarrow> string" where
  "statusText Planned = ''planned''"
| "statusText InProgress = ''in_progress''"
| "statusText Completed = ''completed''"
| "statusText Failed = ''failed''"
| "statusText Blocked = ''blocked''"
| "statusText Invalidated = ''invalidated''"

definition nl :: string where
  "nl = [CHR 0x0A]"

definition popSuccessText :: "PopArgs \<Rightarrow> string \<Rightarrow> FrameMetadata \<Rightarrow> string \<Rightarrow> string" where
  "popSuccessText args target frame parentID =
     ''# Frame Completed'' @ nl @ nl @
     ''**Status:** '' @ statusText (popStatus args) @ nl @
     ''**Frame:** '' @ substring8 target @ nl @
     ''**Title:** '' @ title frame @ nl @
     ''**Parent:** '' @ substring8 parentID @ nl @ nl @
     ''## Results'' @ nl @ popResults args @ nl @ nl @
     ''## Compacted (for tree)'' @ nl @ popResultsCompacted args @ nl @ nl @
     ''---'' @ nl @
     ''This is now available as context for sibling frames and the parent.''"

definition popTarget :: "RuntimeState \<Rightarrow> PopArgs \<Rightarrow> string option" where
  "popTarget rt args = (if truthy (frameID args) then frameID args else currentSessionID rt)"

definition stack_frame_pop ::
  "RuntimeState \<Rightarrow> StackState \<Rightarrow> int \<Rightarrow> PopArgs
     \<Rightarrow> (string + string) \<times> RuntimeState \<times> StackState" where
  "stack_frame_pop rt state now args =
     (let targetFrameID = popTarget rt args
      in if \<not> truthy targetFrameID
         then (Inl ''Error: No frame ID provided and no active session'', rt, state)
         else if isBlank (popResults args)
         then (Inl ''Error: results is required. Provide detailed results of what was accomplished.'',
               rt, state)
         else if isBlank (popResultsCompacted args)
         then (Inl ''Error: resultsCompacted is required. Provide a dense, information-rich compacted version.'',
               rt, state)
         else
           (let target = the targetFrameID
            in case getFrame state target of
                 None \<Rightarrow> (Inl (''Error: Frame not found: '' @ target), rt, state)
               | Some frame \<Rightarrow>
                   if \<not> truthy (parentSessionID frame)
                   then (Inl ''Error: Cannot pop from root frame. This is the top-level frame.'',
                         rt, state)
                   else if status frame = Completed \<or> status frame = Failed
                           \<or> status frame = Invalidated
                   then (Inl (''Error: Frame already has terminal status: ''
                              @ statusText (status frame) @ ''. Cannot pop again.''), rt, state)
                   else
                     (let parentID = the (parentSessionID frame);
                          (r, state') = completeFrame state now target (popStatus args)
                                          (Some (popResults args)) (Some (popResultsCompacted args));
                          rt' = invalidateCache (invalidateCache rt target) parentID
                      in (Inr (popSuccessText args target frame parentID), rt', state'))))"

subsection \<open>The subagent tracker\<close>

text \<open>
  \<open>new RegExp(pattern, 'i').test(title)\<close> belongs to the JavaScript runtime; it is the
  parameter \<open>regexTest\<close> (false for a pattern that does not compile, which the source skips).
\<close>

definition isSubagentTitle :: "(string \<Rightarrow> string \<Rightarrow> bool) \<Rightarrow> RuntimeState \<Rightarrow> string \<Rightarrow> bool" where
  "isSubagentTitle regexTest rt ttl =
     list_ex (\<lambda>patternStr. regexTest patternStr ttl) (subagentPatterns (subagentConfig rt))"

definition registerSubagentSession ::
  "(string \<Rightarrow> string \<Rightarrow> bool) \<Rightarrow> RuntimeState \<Rightarrow> int \<Rightarrow> string \<Rightarrow> string \<Rightarrow> string
     \<Rightarrow> SubagentSession \<times> RuntimeState" where
  "registerSubagentSession regexTest rt now sid parent ttl =
     (let session = \<lparr>subSessionID = sid, subParentSessionID = parent, subTitle = ttl,
                      subCreatedAt = now, lastActivityAt = now,
                      isSubagent = isSubagentTitle regexTest rt ttl, hasFrame = False,
                      messageCount = 0, isIdle = False, isCompleted = False\<rparr>
      in (session,
          rt\<lparr>subagentSessions := AList.update sid session (subagentSessions rt),
             subagentStats := (subagentStats rt)\<lparr>totalDetected := totalDetected (subagentStats rt) + 1\<rparr>\<rparr>))"

definition meetsFrameHeuristics :: "RuntimeState \<Rightarrow> int \<Rightarrow> SubagentSession \<Rightarrow> bool" where
  "meetsFrameHeuristics rt now session =
     (if now - subCreatedAt session < minDuration (subagentConfig rt) then False
      else if messageCount session < minMessageCount (subagentConfig rt) then False
      else True)"

definition markFrameCreated :: "RuntimeState \<Rightarrow> SubagentSession \<Rightarrow> RuntimeState" where
  "markFrameCreated rt session =
     rt\<lparr>subagentSessions :=
          AList.update (subSessionID session) (session\<lparr>hasFrame := True\<rparr>) (subagentSessions rt),
        subagentStats := (subagentStats rt)\<lparr>framesCreated := framesCreated (subagentStats rt) + 1\<rparr>\<rparr>"

text \<open>
  \<open>maybeCreateSubagentFrame\<close> calls \<open>manager.createFrame(session.sessionID, session.title ||
  `Subagent task`, session.parentSessionID)\<close>: three arguments for the parameters
  \<open>(sessionID, title, successCriteria, successCriteriaCompacted, parentSessionID)\<close>, so the
  parent id arrives as \<open>successCriteria\<close> and the last two parameters are \<open>undefined\<close>.
\<close>

definition maybeCreateSubagentFrame ::
  "RuntimeState \<Rightarrow> StackState \<Rightarrow> int \<Rightarrow> string \<Rightarrow> bool \<times> RuntimeState \<times> StackState" where
  "maybeCreateSubagentFrame rt state now sid =
     (case map_of (subagentSessions rt) sid of
        None \<Rightarrow> (False, rt, state)
      | Some session \<Rightarrow>
          if hasFrame session then (False, rt, state)
          else if \<not> meetsFrameHeuristics rt now session
          then (False,
                rt\<lparr>subagentStats := (subagentStats rt)
                      \<lparr>skippedByHeuristics := skippedByHeuristics (subagentStats rt) + 1\<rparr>\<rparr>,
                state)
          else
            (let (frame, state') =
                   createFrame state now (subSessionID session)
                     (if subTitle session \<noteq> [] then subTitle session else ''Subagent task'')
                     (subParentSessionID session) None None;
                 rt' = invalidateCache (markFrameCreated rt session) (subParentSessionID session)
             in (True, rt', state')))"

record SessionInfo =
  infoId :: string
  infoParentID :: "string option"
  infoTitle :: "string option"

text \<open>
  The \<open>session.created\<close> branch of the event hook.  Both of its calls are
  \<open>manager.createFrame(info.id, goal, info.parentID)\<close>, again three arguments.
\<close>

definition onSessionCreated ::
  "(string \<Rightarrow> string \<Rightarrow> bool) \<Rightarrow> RuntimeState \<Rightarrow> StackState \<Rightarrow> int \<Rightarrow> SessionInfo
     \<Rightarrow> RuntimeState \<times> StackState" where
  "onSessionCreated regexTest rt state now info =
     (let rt1 = rt\<lparr>currentSessionID := Some (infoId info)\<rparr>;
          goal = (if truthy (infoTitle info) then the (infoTitle info) else ''Subagent task'')
      in if truthy (infoParentID info)
         then
           (let parentID = the (infoParentID info);
                parentFrame = getFrame state parentID
            in if parentFrame \<noteq> None \<and> enabled (subagentConfig rt1)
               then
                 (let (subagentSession, rt2) =
                        registerSubagentSession regexTest rt1 now (infoId info) parentID goal
                  in if isSubagent subagentSession
                     then
                       (let (frame, state') =
                              createFrame state now (infoId info) goal parentID None None
                        in (invalidateCache (markFrameCreated rt2 subagentSession) parentID, state'))
                     else (rt2, state))
               else if parentFrame \<noteq> None
               then
                 (let (frame, state') = createFrame state now (infoId info) goal parentID None None
                  in (invalidateCache rt1 parentID, state'))
               else (rt1, state))
         else (rt1, state))"


subsection \<open>Activation and identity replacement\<close>

definition activateFrame :: "StackState \<Rightarrow> int \<Rightarrow> string \<Rightarrow> FrameMetadata option \<times> StackState" where
  "activateFrame state now sid =
     (case map_of (frames state) sid of
        None \<Rightarrow> (None, state)
      | Some frame \<Rightarrow>
          if status frame \<noteq> Planned then (None, state)
          else
            (let frame' = saveFrame now (frame\<lparr>status := InProgress, updatedAt := now\<rparr>)
             in (Some frame',
                 saveState now (state\<lparr>activeFrameID := Some sid,
                                       frames := AList.update sid frame' (frames state)\<rparr>))))"

text \<open>\<open>idx = xs.indexOf(old); if (idx >= 0) xs[idx] = new\<close>: only the first occurrence.\<close>

fun replaceFirst :: "'a \<Rightarrow> 'a \<Rightarrow> 'a list \<Rightarrow> 'a list" where
  "replaceFirst old new [] = []"
| "replaceFirst old new (x # xs) = (if x = old then new # xs else x # replaceFirst old new xs)"

definition reparentChildren :: "int \<Rightarrow> string \<Rightarrow> string \<Rightarrow> FrameMap \<Rightarrow> FrameMap" where
  "reparentChildren now oldID newID fs =
     map (\<lambda>(k, f). if parentSessionID f = Some oldID
                     then (k, saveFrame now (f\<lparr>parentSessionID := Some newID\<rparr>))
                     else (k, f)) fs"

definition replaceInParent :: "int \<Rightarrow> string \<Rightarrow> string \<Rightarrow> FrameMap \<Rightarrow> FrameMap" where
  "replaceInParent now oldID newID fs =
     (case map_of fs newID of
        None \<Rightarrow> fs
      | Some frame \<Rightarrow>
          if truthy (parentSessionID frame)
          then (case map_of fs (the (parentSessionID frame)) of
                  None \<Rightarrow> fs
                | Some parent \<Rightarrow>
                    (case plannedChildren parent of
                       None \<Rightarrow> fs
                     | Some kids \<Rightarrow>
                         if oldID \<in> set kids
                         then AList.update (the (parentSessionID frame))
                                (saveFrame now
                                   (parent\<lparr>plannedChildren := Some (replaceFirst oldID newID kids)\<rparr>))
                                fs
                         else fs))
          else fs)"

definition replaceFrameID :: "StackState \<Rightarrow> int \<Rightarrow> string \<Rightarrow> string \<Rightarrow> StackState" where
  "replaceFrameID state now oldID newID =
     (case map_of (frames state) oldID of
        None \<Rightarrow> state
      | Some frame \<Rightarrow>
          (let frame1 = frame\<lparr>sessionID := newID, updatedAt := now\<rparr>;
               fs1 = AList.update newID frame1 (AList.delete oldID (frames state));
               fs2 = reparentChildren now oldID newID fs1;
               fs3 = replaceInParent now oldID newID fs2;
               roots = (if oldID \<in> set (rootFrameIDs state)
                        then replaceFirst oldID newID (rootFrameIDs state)
                        else rootFrameIDs state);
               active = (if activeFrameID state = Some oldID then Some newID
                         else activeFrameID state);
               fs4 = AList.map_entry newID (saveFrame now) fs3
           in saveState now
                (state\<lparr>frames := fs4, rootFrameIDs := roots, activeFrameID := active\<rparr>)))"

subsection \<open>Invalidation\<close>

text \<open>
  \<open>getAllDescendants\<close> is a recursive closure with no bound of its own; the first argument
  of the model is the depth of call stack that is left, and \<open>None\<close> is the stack running
  out (the source then throws and \<open>invalidateFrame\<close> saves nothing).
\<close>

fun getAllDescendants :: "nat \<Rightarrow> FrameMetadata list \<Rightarrow> string \<Rightarrow> FrameMetadata list option" where
  "getAllDescendants 0 vals parentID = None"
| "getAllDescendants (Suc n) vals parentID =
     (let children = filter (\<lambda>f. parentSessionID f = Some parentID) vals
      in map_option (\<lambda>dss. children @ concat dss)
           (those (map (\<lambda>child. getAllDescendants n vals (sessionID child)) children)))"

record InvalidateResult =
  invalidated :: FrameMetadata
  cascadedPlanned :: "FrameMetadata list"
  warningInProgress :: "FrameMetadata list"

definition cascadeReason :: "string \<Rightarrow> string" where
  "cascadeReason reason = ''Parent frame invalidated: '' @ reason"

definition invalidateDescendant :: "int \<Rightarrow> string \<Rightarrow> FrameMetadata \<Rightarrow> FrameMetadata" where
  "invalidateDescendant now reason descendant =
     saveFrame now
       (descendant\<lparr>status := Invalidated, invalidationReason := Some (cascadeReason reason),
                    invalidatedAt := Some now, updatedAt := now\<rparr>)"

text \<open>One turn of the loop over the descendants; the state is the frames map and the two lists.\<close>

definition cascadeStep ::
  "int \<Rightarrow> string \<Rightarrow> FrameMap \<times> FrameMetadata list \<times> FrameMetadata list \<Rightarrow> FrameMetadata
     \<Rightarrow> FrameMap \<times> FrameMetadata list \<times> FrameMetadata list" where
  "cascadeStep now reason acc descendant =
     (case acc of (fs, cascaded, warning) \<Rightarrow>
        if status descendant = Planned
        then (let d' = invalidateDescendant now reason descendant
              in (AList.update (sessionID d') d' fs, cascaded @ [d'], warning))
        else if status descendant = InProgress
        then (fs, cascaded, warning @ [descendant])
        else (fs, cascaded, warning))"

definition invalidateFrame ::
  "nat \<Rightarrow> StackState \<Rightarrow> int \<Rightarrow> string \<Rightarrow> string \<Rightarrow> (InvalidateResult option \<times> StackState) option" where
  "invalidateFrame fuel state now sid reason =
     (case map_of (frames state) sid of
        None \<Rightarrow> Some (None, state)
      | Some frame0 \<Rightarrow>
          (let frame = saveFrame now
                         (frame0\<lparr>status := Invalidated, invalidationReason := Some reason,
                                  invalidatedAt := Some now, updatedAt := now\<rparr>);
               fs1 = AList.update sid frame (frames state)
           in case getAllDescendants fuel (frameValues fs1) sid of
                None \<Rightarrow> None
              | Some descendants \<Rightarrow>
                  (case foldl (cascadeStep now reason) (fs1, [], []) descendants of
                     (fs2, cascaded, warning) \<Rightarrow>
                       Some (Some \<lparr>invalidated = frame, cascadedPlanned = cascaded,
                                   warningInProgress = warning\<rparr>,
                             saveState now
                               (state\<lparr>frames := fs2,
                                      activeFrameID :=
                                        (if activeFrameID state = Some sid
                                         then parentSessionID frame
                                         else activeFrameID state)\<rparr>)))))"


section \<open>Context assembly\<close>

subsection \<open>Token estimates and sorting\<close>

text \<open>\<open>Math.ceil(text.length / 4)\<close>, and 0 for the empty string.\<close>

definition estimateTokens :: "string \<Rightarrow> int" where
  "estimateTokens text = (if text = [] then 0 else (int (length text) + 3) div 4)"

text \<open>
  \<open>Array.prototype.sort\<close> with a comparator is stable.  \<open>jsSort le\<close> is the stable insertion
  sort for the relation \<open>le a b\<close>, which stands for \<open>compare(a, b) <= 0\<close>; for the comparators
  of the source (a preorder on the elements compared) every stable sort returns this list.
\<close>

fun insertBy :: "('a \<Rightarrow> 'a \<Rightarrow> bool) \<Rightarrow> 'a \<Rightarrow> 'a list \<Rightarrow> 'a list" where
  "insertBy le x [] = [x]"
| "insertBy le x (y # ys) = (if le x y then x # y # ys else y # insertBy le x ys)"

definition jsSort :: "('a \<Rightarrow> 'a \<Rightarrow> bool) \<Rightarrow> 'a list \<Rightarrow> 'a list" where
  "jsSort le xs = foldr (insertBy le) xs []"

fun joinWith :: "string \<Rightarrow> string list \<Rightarrow> string" where
  "joinWith sep [] = []"
| "joinWith sep [x] = x"
| "joinWith sep (x # y # ys) = x @ sep @ joinWith sep (y # ys)"

subsection \<open>Ancestor selection\<close>

text \<open>
  Scores are JavaScript numbers; the model computes them as reals, without the rounding of
  double precision.  The parameter \<open>currentFrame\<close> is not used by the source either.
\<close>

definition scoreAncestor :: "int \<Rightarrow> FrameMetadata \<Rightarrow> nat \<Rightarrow> FrameMetadata option \<Rightarrow> real" where
  "scoreAncestor now ancestor depth currentFrame =
     (let score1 = (if depth = 0 then 1000
                    else if depth = 1 then 500
                    else max 0 (100 - real depth * 20));
          ageHours = real_of_int (now - updatedAt ancestor) / (1000 * 60 * 60);
          score2 = score1 + max 0 (50 - ageHours);
          score3 = (if status ancestor = InProgress then score2 + 30
                    else if status ancestor = Completed then score2 + 10
                    else score2);
          score4 = (if truthy (resultsCompacted ancestor) then score3 + 20 else score3);
          score5 = (if length (artifacts ancestor) > 0 then score4 + 10 else score4)
      in score5)"

text \<open>A template literal prints \<open>undefined\<close> for a missing value.\<close>

definition templateText :: "string option \<Rightarrow> string" where
  "templateText s = (case s of None \<Rightarrow> ''undefined'' | Some t \<Rightarrow> t)"

definition formatAncestorForContext :: "FrameMetadata \<Rightarrow> string" where
  "formatAncestorForContext ancestor =
     (let content1 = title ancestor @ '': '' @ templateText (successCriteriaCompacted ancestor);
          content2 = (if truthy (resultsCompacted ancestor)
                      then content1 @ '' '' @ the (resultsCompacted ancestor) else content1);
          content3 = (if length (artifacts ancestor) > 0
                      then content2 @ '' '' @ joinWith '', '' (artifacts ancestor) else content2)
      in content3)"

record ScoredAncestor =
  ancestor :: FrameMetadata
  depth :: nat
  score :: real
  estimatedTokens :: int

definition scoreAll :: "int \<Rightarrow> FrameMetadata list \<Rightarrow> FrameMetadata option \<Rightarrow> ScoredAncestor list" where
  "scoreAll now ancestors currentFrame =
     map (\<lambda>(d, a). \<lparr>ancestor = a, depth = d, score = scoreAncestor now a d currentFrame,
                      estimatedTokens = estimateTokens (formatAncestorForContext a)\<rparr>)
         (enumerate 0 ancestors)"

text \<open>The comparator of the first sort: the parent first, then the higher score first.\<close>

definition ancestorCompare :: "ScoredAncestor \<Rightarrow> ScoredAncestor \<Rightarrow> real" where
  "ancestorCompare a b =
     (if depth a = 0 then - 1 else if depth b = 0 then 1 else score b - score a)"

definition selectStep ::
  "int \<Rightarrow> ScoredAncestor list \<times> int \<times> nat \<Rightarrow> ScoredAncestor \<Rightarrow> ScoredAncestor list \<times> int \<times> nat" where
  "selectStep budget acc item =
     (case acc of (selected, tokensUsed, truncatedCount) \<Rightarrow>
        if tokensUsed + estimatedTokens item \<le> budget
        then (selected @ [item], tokensUsed + estimatedTokens item, truncatedCount)
        else (selected, tokensUsed, truncatedCount + 1))"

record AncestorSelection =
  selected :: "FrameMetadata list"
  truncatedCount :: nat
  tokensUsed :: int

text \<open>
  The last sort of the source orders \<open>selected\<close> by \<open>ancestors.indexOf\<close>, descending.  The
  ancestors are distinct objects, so the index of an ancestor is its depth; the model keeps
  the scored items until that sort and then projects them.
\<close>

definition selectAncestors ::
  "int \<Rightarrow> FrameMetadata list \<Rightarrow> int \<Rightarrow> FrameMetadata option \<Rightarrow> AncestorSelection" where
  "selectAncestors now ancestors budget currentFrame =
     (if length ancestors = 0 then \<lparr>selected = [], truncatedCount = 0, tokensUsed = 0\<rparr>
      else
        (let scored = scoreAll now ancestors currentFrame;
             sorted = jsSort (\<lambda>a b. ancestorCompare a b \<le> 0) scored
         in case foldl (selectStep budget) ([], 0, 0) sorted of
              (chosen, used, truncated) \<Rightarrow>
                \<lparr>selected = map ancestor (jsSort (\<lambda>a b. int (depth b) - int (depth a) \<le> 0) chosen),
                 truncatedCount = truncated, tokensUsed = used\<rparr>))"

subsection \<open>The context cache\<close>

definition digitChar :: "nat \<Rightarrow> char" where
  "digitChar n = ''0123456789'' ! n"

function showNat :: "nat \<Rightarrow> string" where
  "showNat n = (if n < 10 then [digitChar n] else showNat (n div 10) @ [digitChar (n mod 10)])"
  by pat_completeness auto
termination
  by (relation "measure id") auto

declare showNat.simps [simp del]

text \<open>\<open>Number.prototype.toString\<close> on an integer.\<close>

definition showInt :: "int \<Rightarrow> string" where
  "showInt i = (if i < 0 then ''-'' @ showNat (nat (- i)) else showNat (nat i))"




text \<open>The comparator of the eviction sort: the older entry first.\<close>

definition cacheAgeCompare :: "string \<times> CacheEntry \<Rightarrow> string \<times> CacheEntry \<Rightarrow> int" where
  "cacheAgeCompare a b = cacheCreatedAt (snd a) - cacheCreatedAt (snd b)"

definition cacheContext :: "RuntimeState \<Rightarrow> int \<Rightarrow> string \<Rightarrow> string \<Rightarrow> string \<Rightarrow> int \<Rightarrow> RuntimeState" where
  "cacheContext rt now sid ctx hash tokens =
     (let entry = \<lparr>contextText = ctx, cacheCreatedAt = now, cacheSessionID = sid,
                    stateHash = hash, tokenCount = tokens\<rparr>;
          cache1 = AList.update sid entry (contextCache rt);
          cache2 =
            (if length cache1 > 50
             then (let entries = jsSort (\<lambda>a b. cacheAgeCompare a b \<le> 0) cache1;
                       toDelete = take (length entries - 25) entries
                   in fold (\<lambda>(key, e). AList.delete key) toDelete cache1)
             else cache1)
      in rt\<lparr>contextCache := cache2\<rparr>)"

subsection \<open>Assembly with the cache\<close>







record ContextMetadata =
  totalTokens :: int
  ancestorTokens :: int
  siblingTokens :: int
  currentTokens :: int
  ancestorCount :: nat
  ancestorsTruncated :: nat
  siblingCount :: nat
  siblingsFiltered :: nat
  wasTruncated :: bool
  cacheHit :: bool

definition createEmptyMetadata :: ContextMetadata where
  "createEmptyMetadata =
     \<lparr>totalTokens = 0, ancestorTokens = 0, siblingTokens = 0, currentTokens = 0,
      ancestorCount = 0, ancestorsTruncated = 0, siblingCount = 0, siblingsFiltered = 0,
      wasTruncated = False, cacheHit = False\<rparr>"


text \<open>
  On a miss the source reads the token budget, selects ancestors and siblings, renders the
  document with \<open>buildContextXml\<close> and fills the metadata.  That part is the parameter
  \<open>render\<close>: a function of what the source hands to it (the frame, the ancestors, the
  siblings, the planned children) and of the clock, returning the document and the metadata.
\<close>

record RenderInput =
  riSessionID :: string
  riFrame :: FrameMetadata
  riAncestors :: "FrameMetadata list"
  riCompletedSiblings :: "FrameMetadata list"
  riAllSiblings :: "FrameMetadata list"
  riPlannedChildren :: "FrameMetadata list"
  riNow :: int



section \<open>The push evaluator\<close>

subsection \<open>Keywords\<close>

definition toLowerChar :: "char \<Rightarrow> char" where
  "toLowerChar c =
     (case map_of (zip ''ABCDEFGHIJKLMNOPQRSTUVWXYZ'' ''abcdefghijklmnopqrstuvwxyz'') c of
        None \<Rightarrow> c
      | Some l \<Rightarrow> l)"

definition isLowerAlnum :: "char \<Rightarrow> bool" where
  "isLowerAlnum c = (c \<in> set ''abcdefghijklmnopqrstuvwxyz0123456789'')"

text \<open>\<open>split(/\s+/)\<close>: the pieces between maximal runs of white space, empty pieces at the ends included.\<close>

function splitWs :: "string \<Rightarrow> string \<Rightarrow> string list" where
  "splitWs cur [] = [cur]"
| "splitWs cur (c # cs) =
     (if isSpace c then cur # splitWs [] (dropWhile isSpace cs) else splitWs (cur @ [c]) cs)"
  by pat_completeness auto
termination
  by (relation "measure (\<lambda>(cur, cs). length cs)") (auto simp: length_dropWhile_le less_Suc_eq_le)

definition stopWords :: "string list" where
  "stopWords =
     [''the'', ''a'', ''an'', ''and'', ''or'', ''but'', ''in'', ''on'', ''at'', ''to'', ''for'',
      ''of'', ''with'', ''by'', ''from'', ''as'', ''is'', ''was'', ''are'', ''were'', ''been'',
      ''be'', ''have'', ''has'', ''had'', ''do'', ''does'', ''did'', ''will'', ''would'', ''could'',
      ''should'', ''may'', ''might'', ''must'', ''shall'', ''can'', ''need'', ''this'', ''that'',
      ''these'', ''those'', ''it'', ''its'', ''i'', ''you'', ''he'', ''she'', ''we'', ''they'']"

text \<open>The result is a \<open>Set\<close>; the model keeps a list without duplicates.\<close>

definition extractKeywords :: "string \<Rightarrow> string list" where
  "extractKeywords text =
     remdups
       (filter (\<lambda>w. length w > 2 \<and> w \<notin> set stopWords)
          (splitWs []
             (map (\<lambda>c. if isLowerAlnum c \<or> isSpace c then c else CHR '' '')
                (map toLowerChar text))))"

subsection \<open>\<open>evaluatePushHeuristics\<close>\<close>

datatype AutonomyLevel = Manual | Suggest | Auto

record AutonomyConfig =
  level :: AutonomyLevel
  pushThreshold :: int
  popThreshold :: int
  suggestInContext :: bool
  enabledHeuristics :: "string list"

record PushContext =
  recentMessages :: "int option"
  recentFileChanges :: "string list option"
  currentGoal :: "string option"
  potentialNewGoal :: "string option"
  errorCount :: "int option"
  ctxTokenCount :: "int option"

record PushHeuristicResult =
  shouldPush :: bool
  confidence :: int
  suggestedGoal :: "string option"
  primaryReason :: string
  heuristicScores :: "(string \<times> int) list"

text \<open>\<open>Math.round\<close>: the nearest integer, a half going up.\<close>

definition mathRound :: "real \<Rightarrow> int" where
  "mathRound x = \<lfloor>x + 1 / 2\<rfloor>"

text \<open>\<open>x || 0\<close>\<close>

definition orZero :: "int option \<Rightarrow> int" where
  "orZero x = (case x of None \<Rightarrow> 0 | Some v \<Rightarrow> v)"

definition failureBoundaryScore :: "int \<Rightarrow> string \<Rightarrow> string \<Rightarrow> int" where
  "failureBoundaryScore errors newGoal goal =
     (let failureScore1 = (if errors > 0 then min 50 (errors * 15) else 0);
          failureScore2 = (if newGoal \<noteq> [] \<and> newGoal \<noteq> goal then failureScore1 + 30
                           else failureScore1)
      in failureScore2)"

definition contextSwitchScore :: "string list \<Rightarrow> string \<Rightarrow> string \<Rightarrow> int" where
  "contextSwitchScore fileChanges newGoal goal =
     (let score1 =
            (if newGoal \<noteq> [] \<and> goal \<noteq> []
             then (let currentKeywords = extractKeywords goal;
                       newKeywords = extractKeywords newGoal;
                       overlap = length (filter (\<lambda>word. word \<in> set currentKeywords) newKeywords);
                       overlapRatio = (if length currentKeywords > 0
                                       then real overlap / real (length currentKeywords)
                                       else 0)
                   in mathRound ((1 - overlapRatio) * 60))
             else 0);
          score2 = (if length fileChanges > 3 then score1 + 20
                    else if length fileChanges > 1 then score1 + 10
                    else score1)
      in score2)"

definition complexityScore :: "int \<Rightarrow> string list \<Rightarrow> int" where
  "complexityScore messages fileChanges =
     (let score1 = (if messages > 20 then 40
                    else if messages > 10 then 25
                    else if messages > 5 then 10
                    else 0);
          score2 = (if length fileChanges > 5 then score1 + 30
                    else if length fileChanges > 2 then score1 + 15
                    else score1)
      in score2)"

definition durationScore :: "int \<Rightarrow> int" where
  "durationScore tokens =
     (if tokens > 50000 then 70
      else if tokens > 30000 then 50
      else if tokens > 15000 then 30
      else if tokens > 5000 then 15
      else 0)"

text \<open>The loop that picks the primary reason; \<open>heuristic.replace('_', ' ')\<close> changes the first underscore.\<close>

definition reasonStep :: "int \<times> string \<Rightarrow> string \<times> int \<Rightarrow> int \<times> string" where
  "reasonStep acc entry =
     (case acc of (maxScore, reason) \<Rightarrow>
        if snd entry > maxScore
        then (snd entry, replaceFirst (CHR ''_'') (CHR '' '') (fst entry))
        else (maxScore, reason))"

text \<open>The field \<open>explanation\<close> of the result, a report text, is left out.\<close>

definition evaluatePushHeuristics ::
  "AutonomyConfig \<Rightarrow> StackState \<Rightarrow> string \<Rightarrow> PushContext \<Rightarrow> PushHeuristicResult" where
  "evaluatePushHeuristics config state sid ctx =
     (let frame = getFrame state sid;
          messages = orZero (recentMessages ctx);
          fileChanges = (case recentFileChanges ctx of None \<Rightarrow> [] | Some fc \<Rightarrow> fc);
          goal = (if truthy (currentGoal ctx) then the (currentGoal ctx)
                  else (case frame of None \<Rightarrow> [] | Some f \<Rightarrow> title f));
          newGoal = (case potentialNewGoal ctx of None \<Rightarrow> [] | Some g \<Rightarrow> g);
          errors = orZero (errorCount ctx);
          tokens = orZero (ctxTokenCount ctx);
          scores1 = (if ''failure_boundary'' \<in> set (enabledHeuristics config)
                     then [(''failure_boundary'', failureBoundaryScore errors newGoal goal)]
                     else []);
          scores2 = (if ''context_switch'' \<in> set (enabledHeuristics config)
                     then scores1 @ [(''context_switch'', contextSwitchScore fileChanges newGoal goal)]
                     else scores1);
          scores3 = (if ''complexity'' \<in> set (enabledHeuristics config)
                     then scores2 @ [(''complexity'', complexityScore messages fileChanges)]
                     else scores2);
          scores4 = (if ''duration'' \<in> set (enabledHeuristics config)
                     then scores3 @ [(''duration'', durationScore tokens)]
                     else scores3);
          scores = map snd scores4;
          conf = (if length scores > 0
                  then mathRound (real_of_int (foldl (+) 0 scores) / real (length scores))
                  else 0);
          push = (conf \<ge> pushThreshold config);
          reason = snd (foldl reasonStep (0, ''No strong signals'') scores4)
      in \<lparr>shouldPush = push, confidence = conf,
          suggestedGoal = (if newGoal \<noteq> [] then Some newGoal else None),
          primaryReason = reason, heuristicScores = scores4\<rparr>)"

section \<open>Example aggregates\<close>

text \<open>
  A root frame \<open>A\<close> in progress with a child \<open>B\<close> that was completed with results, and the
  runtime of a fresh process with the default subagent patterns.
\<close>

definition exFrameA :: FrameMetadata where
  "exFrameA = newFrame 1000 ''A'' ''Root task'' ''build it'' (Some ''build'') None InProgress None"

definition exFrameB :: FrameMetadata where
  "exFrameB =
     (newFrame 1100 ''B'' ''Child task'' ''do part'' (Some ''part'') (Some ''A'') Completed None)
       \<lparr>results := Some ''all done'', resultsCompacted := Some ''done''\<rparr>"

definition exState :: StackState where
  "exState =
     \<lparr>version = 1, frames = [(''A'', exFrameA), (''B'', exFrameB)],
      activeFrameID = Some ''A'', rootFrameIDs = [''A''], stateUpdatedAt = 1100\<rparr>"

definition exRuntime :: RuntimeState where
  "exRuntime =
     \<lparr>currentSessionID = Some ''A'', contextCache = [], cacheTTL = 30000,
      subagentConfig =
        \<lparr>enabled = True, minDuration = 60000, minMessageCount = 3,
         subagentPatterns = [''@.*subagent'', ''subagent'',
                             CHR 0x5C # ''[Task'' @ CHR 0x5C # '']''],
         autoCompleteOnIdle = True, idleCompletionDelay = 5000\<rparr>,
      subagentSessions = [],
      subagentStats = \<lparr>totalDetected = 0, framesCreated = 0, skippedByHeuristics = 0,
                        autoCompleted = 0, manuallyCompleted = 0\<rparr>\<rparr>"

definition exPopArgs :: "string \<Rightarrow> PopArgs" where
  "exPopArgs target =
     \<lparr>frameID = Some target, popStatus = Failed, popResults = ''tried again'',
      popResultsCompacted = ''again''\<rparr>"

text \<open>
  A child session whose title matches the pattern \<open>subagent\<close>, and a tracked child session
  that has run long enough and exchanged enough messages.  \<open>exRegexTest\<close> is the regular
  expression test of the runtime on the patterns and titles used here.
\<close>

definition exRegexTest :: "string \<Rightarrow> string \<Rightarrow> bool" where
  "exRegexTest patternStr ttl = (patternStr = ''subagent'' \<and> ttl = ''deploy subagent'')"

definition exSessionInfo :: SessionInfo where
  "exSessionInfo =
     \<lparr>infoId = ''S1'', infoParentID = Some ''A'', infoTitle = Some ''deploy subagent''\<rparr>"

definition exTrackedSession :: SubagentSession where
  "exTrackedSession =
     \<lparr>subSessionID = ''S2'', subParentSessionID = ''A'', subTitle = ''helper'',
      subCreatedAt = 1200, lastActivityAt = 1900, isSubagent = False, hasFrame = False,
      messageCount = 5, isIdle = False, isCompleted = False\<rparr>"

definition exTrackingRuntime :: RuntimeState where
  "exTrackingRuntime = exRuntime\<lparr>subagentSessions := [(''S2'', exTrackedSession)]\<rparr>"

lemmas ex2_defs = exRegexTest_def exSessionInfo_def exTrackedSession_def exTrackingRuntime_def

section \<open>Well-formed aggregates\<close>

text \<open>
  The store is \<^emph>\<open>key-consistent\<close> when its keys are distinct and every frame is stored under
  its own \<open>sessionID\<close>, as the manager writes \<open>state.frames[frame.sessionID]\<close>.
  The parent links are acyclic when some rank goes down
  from every parent to its children.  \<open>descendantOf vals p f\<close>: the frame \<open>f\<close> is reached from
  the id \<open>p\<close> by following parent links downwards.
\<close>

definition keysConsistent :: "FrameMap \<Rightarrow> bool" where
  "keysConsistent fs = (distinct (map fst fs) \<and> list_all (\<lambda>(k, f). sessionID f = k) fs)"

definition ranked :: "(string \<Rightarrow> nat) \<Rightarrow> FrameMetadata list \<Rightarrow> bool" where
  "ranked rank vals =
     (\<forall>f \<in> set vals. \<forall>p. parentSessionID f = Some p \<longrightarrow> rank (sessionID f) < rank p)"

inductive descendantOf :: "FrameMetadata list \<Rightarrow> string \<Rightarrow> FrameMetadata \<Rightarrow> bool"
  for vals :: "FrameMetadata list" where
  child: "f \<in> set vals \<Longrightarrow> parentSessionID f = Some p \<Longrightarrow> descendantOf vals p f"
| below: "c \<in> set vals \<Longrightarrow> parentSessionID c = Some p \<Longrightarrow> descendantOf vals (sessionID c) f
          \<Longrightarrow> descendantOf vals p f"

definition cascadeFrames :: "int \<Rightarrow> string \<Rightarrow> FrameMap \<Rightarrow> FrameMetadata list \<Rightarrow> FrameMap" where
  "cascadeFrames now reason fs ds =
     foldl (\<lambda>fs d. if status d = Planned
                    then AList.update (sessionID d) (invalidateDescendant now reason d) fs else fs) fs ds"

text \<open>The frames map after the loop over the descendants, and the target after its invalidation.\<close>

definition invalidateTarget :: "int \<Rightarrow> string \<Rightarrow> FrameMetadata \<Rightarrow> FrameMetadata" where
  "invalidateTarget now reason frame =
     frame\<lparr>status := Invalidated, invalidationReason := Some reason, invalidatedAt := Some now,
           updatedAt := now\<rparr>"

section \<open>More example aggregates\<close>

text \<open>
  The cascade scenario: a parent \<open>P\<close> with planned children \<open>P1\<close> (which has a planned child
  \<open>G1\<close>) and \<open>P2\<close>, a child \<open>I1\<close> in progress and a completed child \<open>C1\<close>.  Then a frame \<open>X\<close>
  that was invalidated at time 1500 and got a planned child \<open>Y\<close> afterwards.
\<close>

definition exCascadeState :: StackState where
  "exCascadeState =
     \<lparr>version = 1,
      frames =
        [(''P'', newFrame 1000 ''P'' ''Parent'' ''ship it'' (Some ''ship'') None InProgress
                  (Some [''P1'', ''P2''])),
         (''P1'', newFrame 1100 ''P1'' ''First'' ''step one'' (Some ''one'') (Some ''P'') Planned
                   (Some [''G1''])),
         (''P2'', newFrame 1200 ''P2'' ''Second'' ''step two'' (Some ''two'') (Some ''P'') Planned
                   (Some [])),
         (''I1'', newFrame 1300 ''I1'' ''Running'' ''step three'' (Some ''three'') (Some ''P'')
                   InProgress None),
         (''C1'', (newFrame 1400 ''C1'' ''Done'' ''step four'' (Some ''four'') (Some ''P'')
                    Completed None)\<lparr>results := Some ''finished'', resultsCompacted := Some ''fin''\<rparr>),
         (''G1'', newFrame 1500 ''G1'' ''Nested'' ''step five'' (Some ''five'') (Some ''P1'') Planned
                   (Some []))],
      activeFrameID = Some ''P'', rootFrameIDs = [''P''], stateUpdatedAt = 1500\<rparr>"

definition exRank :: "string \<Rightarrow> nat" where
  "exRank k = (if k = ''P'' then 2 else if k = ''P1'' then 1 else 0)"

definition exInvalidatedX :: FrameMetadata where
  "exInvalidatedX =
     (newFrame 1000 ''X'' ''Old plan'' ''do x'' (Some ''x'') None Invalidated (Some [''Y'']))
       \<lparr>invalidationReason := Some ''superseded'', invalidatedAt := Some 1500, updatedAt := 1500\<rparr>"

definition exPlannedY :: FrameMetadata where
  "exPlannedY = newFrame 1800 ''Y'' ''Late child'' ''do y'' (Some ''y'') (Some ''X'') Planned (Some [])"

definition exRankXY :: "string \<Rightarrow> nat" where
  "exRankXY k = (if k = ''X'' then 1 else 0)"

definition exReinvalidateState :: StackState where
  "exReinvalidateState =
     \<lparr>version = 1, frames = [(''X'', exInvalidatedX), (''Y'', exPlannedY)],
      activeFrameID = None, rootFrameIDs = [''X''], stateUpdatedAt = 1800\<rparr>"


lemmas ex3_defs = exCascadeState_def exRank_def exRankXY_def exInvalidatedX_def exPlannedY_def
  exReinvalidateState_def newFrame_def

section \<open>References to an id\<close>

text \<open>
  \<open>refersTo state x\<close>: the id \<open>x\<close> occurs in the aggregate, as a key of the frames map, as
  the \<open>sessionID\<close> or the \<open>parentSessionID\<close> of a stored frame, in a \<open>plannedChildren\<close>
  list, in \<open>rootFrameIDs\<close> or as the active frame.  \<open>renameID\<close> is the renaming of one id
  and \<open>renameLinks\<close> renames the parent link and the planned children of a frame.
\<close>

definition renameID :: "string \<Rightarrow> string \<Rightarrow> string \<Rightarrow> string" where
  "renameID oldID newID x = (if x = oldID then newID else x)"

definition refersTo :: "StackState \<Rightarrow> string \<Rightarrow> bool" where
  "refersTo state x =
     (list_ex (\<lambda>(k, f). k = x \<or> sessionID f = x \<or> parentSessionID f = Some x
                 \<or> (case plannedChildren f of None \<Rightarrow> False | Some kids \<Rightarrow> x \<in> set kids))
        (frames state)
      \<or> x \<in> set (rootFrameIDs state)
      \<or> activeFrameID state = Some x)"

definition renameLinks :: "string \<Rightarrow> string \<Rightarrow> FrameMetadata \<Rightarrow> FrameMetadata" where
  "renameLinks oldID newID f =
     f\<lparr>parentSessionID := map_option (renameID oldID newID) (parentSessionID f),
       plannedChildren := map_option (map (renameID oldID newID)) (plannedChildren f)\<rparr>"

text \<open>
  \<open>replaceFrameID\<close> rewrites the parent link of every stored frame (\<open>reparentFrame\<close>) and
  the planned children of one frame only (\<open>replanFrame\<close>): the frame stored under the parent
  id of the renamed frame, read after the parent links were rewritten and only when it is a
  non-empty string (\<open>parentKeyAfter\<close>).  \<open>relinkFrame\<close> is both steps.
\<close>

definition reparentFrame :: "int \<Rightarrow> string \<Rightarrow> string \<Rightarrow> FrameMetadata \<Rightarrow> FrameMetadata" where
  "reparentFrame now oldID newID f =
     (if parentSessionID f = Some oldID
      then saveFrame now (f\<lparr>parentSessionID := Some newID\<rparr>) else f)"

definition replanFrame :: "int \<Rightarrow> string \<Rightarrow> string \<Rightarrow> FrameMetadata \<Rightarrow> FrameMetadata" where
  "replanFrame now oldID newID parent =
     (case plannedChildren parent of
        None \<Rightarrow> parent
      | Some kids \<Rightarrow>
          if oldID \<in> set kids
          then saveFrame now (parent\<lparr>plannedChildren := Some (replaceFirst oldID newID kids)\<rparr>)
          else parent)"

definition relinkFrame :: "int \<Rightarrow> string \<Rightarrow> string \<Rightarrow> FrameMetadata \<Rightarrow> FrameMetadata" where
  "relinkFrame now oldID newID f =
     (let f1 = (if parentSessionID f = Some oldID
                then saveFrame now (f\<lparr>parentSessionID := Some newID\<rparr>) else f)
      in case plannedChildren f1 of
           None \<Rightarrow> f1
         | Some kids \<Rightarrow>
             if oldID \<in> set kids
             then saveFrame now (f1\<lparr>plannedChildren := Some (replaceFirst oldID newID kids)\<rparr>)
             else f1)"

definition parentKeyAfter :: "string \<Rightarrow> string \<Rightarrow> FrameMetadata \<Rightarrow> string option" where
  "parentKeyAfter oldID newID frame =
     (let p = map_option (renameID oldID newID) (parentSessionID frame)
      in if truthy p then p else None)"

text \<open>
  \<open>listedByParentOnce\<close>: every \<open>plannedChildren\<close> list that names the old id belongs to the
  frame whose planned children \<open>replaceFrameID\<close> rewrites, and names the old id once.  The
  entry stored under the new id does not count: \<open>state.frames[newID] = frame\<close> overwrites it.
\<close>

definition listedByParentOnce :: "StackState \<Rightarrow> string \<Rightarrow> string \<Rightarrow> FrameMetadata \<Rightarrow> bool" where
  "listedByParentOnce state oldID newID frame =
     list_all (\<lambda>(k, f). k = newID
                 \<or> (case plannedChildren f of
                       None \<Rightarrow> True
                     | Some kids \<Rightarrow>
                         oldID \<notin> set kids
                         \<or> (count_list kids oldID \<le> 1
                             \<and> parentKeyAfter oldID newID frame = Some (renameID oldID newID k))))
       (frames state)"

section \<open>Example aggregates for identity replacement\<close>

text \<open>
  A root \<open>R\<close> with two planned children, the first of which has a planned child of its
  own.  The session \<open>ses_1\<close> that is to take the place of \<open>plan-1\<close> has a frame already,
  stored as a root when the session was created, it is the active frame and the root list
  names it twice.  And an aggregate whose root list names \<open>A\<close> twice.
\<close>

definition exFrameR :: FrameMetadata where
  "exFrameR =
     newFrame 1000 ''R'' ''Root'' ''all'' (Some ''all'') None InProgress
       (Some [''plan-1'', ''plan-2''])"

definition exPlan1 :: FrameMetadata where
  "exPlan1 =
     newFrame 1100 ''plan-1'' ''First'' ''one'' (Some ''one'') (Some ''R'') Planned
       (Some [''plan-3''])"

definition exPlan2 :: FrameMetadata where
  "exPlan2 =
     newFrame 1200 ''plan-2'' ''Second'' ''two'' (Some ''two'') (Some ''R'') Planned (Some [])"

definition exPlan3 :: FrameMetadata where
  "exPlan3 =
     newFrame 1300 ''plan-3'' ''Third'' ''three'' (Some ''three'') (Some ''plan-1'') Planned
       (Some [])"

definition exHookFrame :: FrameMetadata where
  "exHookFrame = newFrame 1400 ''ses_1'' ''First'' ''R'' None None InProgress None"

definition exHookedPlanState :: StackState where
  "exHookedPlanState =
     \<lparr>version = 1,
      frames = [(''R'', exFrameR), (''plan-1'', exPlan1), (''plan-2'', exPlan2),
                (''plan-3'', exPlan3), (''ses_1'', exHookFrame)],
      activeFrameID = Some ''ses_1'', rootFrameIDs = [''R'', ''ses_1'', ''ses_1''],
      stateUpdatedAt = 1400\<rparr>"

definition exDupRootState :: StackState where
  "exDupRootState =
     \<lparr>version = 1, frames = [(''A'', exFrameA)],
      activeFrameID = Some ''A'', rootFrameIDs = [''A'', ''A''], stateUpdatedAt = 1000\<rparr>"

lemmas ex5_defs = exFrameR_def exPlan1_def exPlan2_def exPlan3_def exHookFrame_def exHookedPlanState_def
  exDupRootState_def exFrameA_def newFrame_def

section \<open>Ancestors for the selection\<close>

text \<open>
  The estimated tokens of an ancestor, as \<open>selectAncestors\<close> computes them; and a chain of
  three ancestors: the parent \<open>P\<close> (8 tokens), the grandparent \<open>G\<close> (6 tokens) and the
  oldest ancestor \<open>O\<close> (5 tokens).
\<close>

definition ancestorTokens_of :: "FrameMetadata \<Rightarrow> int" where
  "ancestorTokens_of a = estimateTokens (formatAncestorForContext a)"

definition exGrandparent :: FrameMetadata where
  "exGrandparent =
     (newFrame 1000 ''G'' ''Project'' ''ship the product'' (Some ''ship'') None InProgress None)
       \<lparr>artifacts := [''README.md'']\<rparr>"

definition exParent :: FrameMetadata where
  "exParent =
     newFrame 2000 ''P'' ''Backend'' ''build the api'' (Some ''api with auth and tests'')
       (Some ''G'') InProgress None"

definition exOldest :: FrameMetadata where
  "exOldest =
     (newFrame 500 ''O'' ''Company'' ''everything'' (Some ''all'') None Completed None)
       \<lparr>resultsCompacted := Some ''founded''\<rparr>"

lemmas ex4_defs = exGrandparent_def exParent_def exOldest_def exFrameA_def newFrame_def

section \<open>Signals for the push evaluator\<close>

text \<open>
  A configuration with the two heuristics \<open>failure_boundary\<close> and \<open>context_switch\<close>
  enabled; signals that score 80 and 20 on them (four errors and a new goal; the same
  keywords in both goals and four changed files); and no signals at all.  \<open>displayName\<close> is
  the form in which a heuristic is reported.
\<close>

definition exAutonomy :: "int \<Rightarrow> AutonomyConfig" where
  "exAutonomy threshold =
     \<lparr>level = Suggest, pushThreshold = threshold, popThreshold = 80, suggestInContext = True,
      enabledHeuristics = [''failure_boundary'', ''context_switch'']\<rparr>"

definition exPushContext :: PushContext where
  "exPushContext =
     \<lparr>recentMessages = Some 30,
      recentFileChanges = Some [''a.ts'', ''b.ts'', ''c.ts'', ''d.ts''],
      currentGoal = Some ''Fix login'', potentialNewGoal = Some ''fix the login now'',
      errorCount = Some 4, ctxTokenCount = Some 60000\<rparr>"

definition exQuietContext :: PushContext where
  "exQuietContext =
     \<lparr>recentMessages = None, recentFileChanges = None, currentGoal = None,
      potentialNewGoal = None, errorCount = None, ctxTokenCount = None\<rparr>"

definition displayName :: "string \<Rightarrow> string" where
  "displayName heuristic = replaceFirst (CHR ''_'') (CHR '' '') heuristic"

lemmas ex9_defs = exAutonomy_def exPushContext_def exQuietContext_def

section \<open>Cache invariant and assembly inputs\<close>

text \<open>
  \<open>cacheInvariant now\<close>: the cache holds at most 50 entries, one per key, none created after
  \<open>now\<close>; the empty cache has it and \<open>cacheContext\<close> keeps it.  \<open>parentsAbove\<close>: some depth
  goes down from every frame to its parent, so the walk of \<open>getAncestors\<close> ends.
  \<open>stateHashOf\<close> and \<open>renderInputOf\<close> are the hash and the renderer's input that the assembly
  computes for a frame.
\<close>

definition cacheInvariant :: "int \<Rightarrow> RuntimeState \<Rightarrow> bool" where
  "cacheInvariant now rt =
     (length (contextCache rt) \<le> 50
      \<and> distinct (map fst (contextCache rt))
      \<and> list_all (\<lambda>(key, e). cacheCreatedAt e \<le> now) (contextCache rt))"




text \<open>
  For the examples: a renderer that prints the session and the clock, the runtime after one
  assembly for \<open>B\<close> at time 2000, and the aggregate after \<open>B\<close> was completed again as failed.
\<close>

definition exRender :: "RenderInput \<Rightarrow> string \<times> ContextMetadata" where
  "exRender ri =
     (''<context session='' @ riSessionID ri @ '' at='' @ showInt (riNow ri) @ ''/>'',
      createEmptyMetadata\<lparr>totalTokens := 240 + int (length (riAncestors ri)),
                           ancestorCount := length (riAncestors ri)\<rparr>)"

definition exDepth :: "string \<Rightarrow> nat" where
  "exDepth k = (if k = ''A'' then 0 else 1)"

definition exCachedRuntime :: RuntimeState where
  "exCachedRuntime =
     exRuntime\<lparr>contextCache :=
       [(''B'', \<lparr>contextText = ''<context session=B at=2000/>'', cacheCreatedAt = 2000,
                 cacheSessionID = ''B'',
                 stateHash = ''B|completed|1100|4|1|A:in_progress:1000|0||0|'',
                 tokenCount = 241\<rparr>)]\<rparr>"

definition exFailedState :: StackState where
  "exFailedState = snd (completeFrame exState 2200 ''B'' Failed (Some ''broke'') (Some ''no''))"

lemmas ex3c_defs = exRender_def exDepth_def exCachedRuntime_def exFailedState_def

lemmas ex_defs = exState_def exRuntime_def exFrameA_def exFrameB_def newFrame_def exPopArgs_def

section \<open>Completion of frames that are terminal or roots\<close>

text \<open>
  C1, as stated, fails for the store: \<open>completeFrame\<close> has no check of the status.  Frame \<open>B\<close>
  of the example is \<open>completed\<close> with results \<open>all done\<close>; completing it again as \<open>failed\<close>
  succeeds and overwrites the results.
\<close>

theorem completeFrame_overwrites_terminal_results:
  "getFrame exState ''B'' = Some exFrameB \<and> status exFrameB = Completed
   \<and> results exFrameB = Some ''all done''
   \<and> map_option results
        (getFrame (snd (completeFrame exState 2000 ''B'' Failed (Some ''tried again'') (Some ''again'')))
           ''B'')
       = Some (Some ''tried again'')"
  by (simp add: getFrame_def completeFrame_def ex_defs saveFrame_def saveState_def Let_def)

text \<open>
  C1 (amended): the guard is in the command.  For every frame whose status is \<open>completed\<close>,
  \<open>failed\<close> or \<open>invalidated\<close>, \<open>stack_frame_pop\<close> returns an error text and leaves the aggregate
  and the runtime as they were, so \<open>results\<close> and \<open>resultsCompacted\<close> keep their values; when the
  arguments are well formed and the frame has a parent, the error is the one about the
  terminal status.  \<open>completeFrame\<close> itself makes no such check.
\<close>

theorem stack_frame_pop_rejects_terminal:
  assumes "popTarget rt args = Some target" and "getFrame state target = Some frame"
    and "status frame = Completed \<or> status frame = Failed \<or> status frame = Invalidated"
  shows "(\<exists>msg. stack_frame_pop rt state now args = (Inl msg, rt, state))
    \<and> (target \<noteq> [] \<and> \<not> isBlank (popResults args) \<and> \<not> isBlank (popResultsCompacted args)
         \<and> truthy (parentSessionID frame)
       \<longrightarrow> stack_frame_pop rt state now args =
             (Inl (''Error: Frame already has terminal status: '' @ statusText (status frame)
                   @ ''. Cannot pop again.''), rt, state))"
  using assms by (auto simp add: stack_frame_pop_def Let_def truthy_def)

text \<open>The guard at work on frame \<open>B\<close> of the example.\<close>

theorem stack_frame_pop_rejects_terminal_witness:
  "stack_frame_pop exRuntime exState 2000 (exPopArgs ''B'') =
     (Inl ''Error: Frame already has terminal status: completed. Cannot pop again.'',
      exRuntime, exState)"
  using stack_frame_pop_rejects_terminal
          [of exRuntime "exPopArgs ''B''" "''B''" exState exFrameB 2000]
  by (simp add: popTarget_def getFrame_def ex_defs truthy_def isBlank_def isSpace_def)

text \<open>
  C8, as stated, fails for the store: \<open>completeFrame\<close> completes the root frame \<open>A\<close> of the
  example, returns \<open>undefined\<close> as the parent id and saves the changed aggregate with no
  active frame.
\<close>

theorem completeFrame_completes_root:
  "getFrame exState ''A'' = Some exFrameA \<and> parentSessionID exFrameA = None
   \<and> completeFrame exState 2000 ''A'' Completed (Some ''finished'') (Some ''fin'')
       = (None,
          exState\<lparr>frames := [(''A'', exFrameA\<lparr>status := Completed, results := Some ''finished'',
                                               resultsCompacted := Some ''fin'',
                                               updatedAt := 2000\<rparr>),
                              (''B'', exFrameB)],
                  activeFrameID := None, stateUpdatedAt := 2000\<rparr>)"
  by (simp add: getFrame_def completeFrame_def ex_defs saveFrame_def saveState_def Let_def)

text \<open>
  C8 (amended): the guard is in the command.  For every frame with no parent,
  \<open>stack_frame_pop\<close> returns an error text and leaves the aggregate and the runtime as they
  were; with well-formed arguments the error is \<open>Cannot pop from root frame\<close>.
  \<open>completeFrame\<close> itself makes no such check.
\<close>

theorem stack_frame_pop_rejects_root:
  assumes "popTarget rt args = Some target" and "getFrame state target = Some frame"
    and "\<not> truthy (parentSessionID frame)"
  shows "(\<exists>msg. stack_frame_pop rt state now args = (Inl msg, rt, state))
    \<and> (target \<noteq> [] \<and> \<not> isBlank (popResults args) \<and> \<not> isBlank (popResultsCompacted args)
       \<longrightarrow> stack_frame_pop rt state now args =
             (Inl ''Error: Cannot pop from root frame. This is the top-level frame.'', rt, state))"
  using assms by (auto simp add: stack_frame_pop_def Let_def truthy_def)

text \<open>The guard at work on the root frame \<open>A\<close> of the example.\<close>

theorem stack_frame_pop_rejects_root_witness:
  "stack_frame_pop exRuntime exState 2000 (exPopArgs ''A'') =
     (Inl ''Error: Cannot pop from root frame. This is the top-level frame.'', exRuntime, exState)"
  using stack_frame_pop_rejects_root
          [of exRuntime "exPopArgs ''A''" "''A''" exState exFrameA 2000]
  by (simp add: popTarget_def getFrame_def ex_defs truthy_def isBlank_def isSpace_def)

section \<open>Creating a frame under an id that exists\<close>

text \<open>
  C7, as stated, fails: \<open>createFrame\<close> has no check of the id.  Creating \<open>B\<close> again in the
  example succeeds and replaces the completed frame, results included, by a fresh one.
\<close>

theorem createFrame_overwrites_existing:
  "getFrame exState ''B'' = Some exFrameB
   \<and> createFrame exState 2000 ''B'' ''Other'' ''redo'' (Some ''redo'') (Some ''A'')
       = (newFrame 2000 ''B'' ''Other'' ''redo'' (Some ''redo'') (Some ''A'') InProgress None,
          exState\<lparr>frames :=
                    [(''A'', exFrameA),
                     (''B'', newFrame 2000 ''B'' ''Other'' ''redo'' (Some ''redo'') (Some ''A'')
                               InProgress None)],
                  activeFrameID := Some ''B'', stateUpdatedAt := 2000\<rparr>)
   \<and> results exFrameB = Some ''all done''
   \<and> results (newFrame 2000 ''B'' ''Other'' ''redo'' (Some ''redo'') (Some ''A'') InProgress None)
       = None"
  by (simp add: getFrame_def createFrame_def ex_defs saveFrame_def saveState_def Let_def truthy_def)

text \<open>
  C7 (amended): \<open>createFrame\<close> and \<open>createPlannedFrame\<close> never fail and do not look at what
  is stored: after either, the entry of the id is the newly built frame (for
  \<open>createPlannedFrame\<close> with itself in \<open>plannedChildren\<close> when it is planned under its own
  id), whatever was there before.  The operation that preserves an existing frame is
  \<open>ensureFrame\<close>: it returns the stored frame and leaves the aggregate unchanged.
\<close>

theorem create_replaces_entry_ensure_preserves:
  "getFrame (snd (createFrame state now sid ttl criteria compacted parent)) sid
     = Some (newFrame now sid ttl criteria compacted parent InProgress None)
   \<and> getFrame (snd (createPlannedFrame state now sid ttl criteria compacted parent)) sid
     = Some ((newFrame now sid ttl criteria compacted parent Planned (Some []))
               \<lparr>plannedChildren :=
                  Some (if truthy parent \<and> parent = Some sid then [sid] else [])\<rparr>)
   \<and> (getFrame state sid = Some existing
        \<longrightarrow> ensureFrame state now sid sessionTitle = (existing, state))"
proof (intro conjI impI)
  show "getFrame (snd (createFrame state now sid ttl criteria compacted parent)) sid
          = Some (newFrame now sid ttl criteria compacted parent InProgress None)"
    by (simp add: createFrame_def getFrame_def Let_def saveState_def update_conv')
  show "getFrame (snd (createPlannedFrame state now sid ttl criteria compacted parent)) sid
     = Some ((newFrame now sid ttl criteria compacted parent Planned (Some []))
               \<lparr>plannedChildren :=
                  Some (if truthy parent \<and> parent = Some sid then [sid] else [])\<rparr>)"
    by (auto simp add: createPlannedFrame_def getFrame_def Let_def saveState_def saveFrame_def
          update_conv' newFrame_def truthy_def split: option.splits)
  show "ensureFrame state now sid sessionTitle = (existing, state)"
    if "getFrame state sid = Some existing"
    using that by (simp add: ensureFrame_def)
qed

text \<open>On the example: \<open>ensureFrame\<close> keeps the completed frame \<open>B\<close>.\<close>

theorem create_replaces_entry_ensure_preserves_witness:
  "getFrame exState ''B'' = Some exFrameB
   \<and> ensureFrame exState 2000 ''B'' None = (exFrameB, exState)
   \<and> getFrame (snd (createPlannedFrame exState 2000 ''B'' ''Other'' ''redo'' (Some ''redo'')
                      (Some ''A''))) ''B''
       = Some (newFrame 2000 ''B'' ''Other'' ''redo'' (Some ''redo'') (Some ''A'') Planned (Some []))"
  using create_replaces_entry_ensure_preserves
          [of exState 2000 "''B''" "''Other''" "''redo''" "Some ''redo''" "Some ''A''" exFrameB None]
  by (simp add: getFrame_def ex_defs truthy_def)

section \<open>Frames created by the subagent tracker\<close>

text \<open>
  C10 says that a frame created for a tracked child session has the parent session as
  \<open>parentSessionID\<close> and is no root.  The code does the opposite, in both places where the
  tracker creates a frame: the call \<open>createFrame(id, title, parentID)\<close> binds the parent id to
  the parameter \<open>successCriteria\<close>, so the stored frame has no parent, has the parent id as
  its success criteria, and is appended to \<open>rootFrameIDs\<close>.
\<close>

theorem tracker_frames_are_roots:
  "(map_of (subagentSessions rt) sid = Some session
      \<and> maybeCreateSubagentFrame rt state now sid = (True, rt1, state1)
    \<longrightarrow> map_option parentSessionID (getFrame state1 (subSessionID session)) = Some None
        \<and> map_option successCriteria (getFrame state1 (subSessionID session))
            = Some (subParentSessionID session)
        \<and> rootFrameIDs state1 = rootFrameIDs state @ [subSessionID session])
   \<and> (onSessionCreated regexTest rt state now info = (rt2, state2) \<and> state2 \<noteq> state
    \<longrightarrow> map_option parentSessionID (getFrame state2 (infoId info)) = Some None
        \<and> map_option successCriteria (getFrame state2 (infoId info)) = infoParentID info
        \<and> rootFrameIDs state2 = rootFrameIDs state @ [infoId info])"
proof (intro conjI impI)
  assume a: "map_of (subagentSessions rt) sid = Some session
      \<and> maybeCreateSubagentFrame rt state now sid = (True, rt1, state1)"
  then have s1: "state1 = snd (createFrame state now (subSessionID session)
                     (if subTitle session \<noteq> [] then subTitle session else ''Subagent task'')
                     (subParentSessionID session) None None)"
    by (auto simp add: maybeCreateSubagentFrame_def Let_def split: if_splits prod.splits)
  show "map_option parentSessionID (getFrame state1 (subSessionID session)) = Some None"
    by (simp add: s1 createFrame_def getFrame_def Let_def saveState_def update_conv' newFrame_def truthy_def)
  show "map_option successCriteria (getFrame state1 (subSessionID session))
            = Some (subParentSessionID session)"
    by (simp add: s1 createFrame_def getFrame_def Let_def saveState_def update_conv' newFrame_def truthy_def)
  show "rootFrameIDs state1 = rootFrameIDs state @ [subSessionID session]"
    by (simp add: s1 createFrame_def getFrame_def Let_def saveState_def update_conv' newFrame_def truthy_def)
next
  assume a: "onSessionCreated regexTest rt state now info = (rt2, state2) \<and> state2 \<noteq> state"
  then have s2: "state2 = snd (createFrame state now (infoId info)
                   (if truthy (infoTitle info) then the (infoTitle info) else ''Subagent task'')
                   (the (infoParentID info)) None None)" and p: "truthy (infoParentID info)"
    by (auto simp add: onSessionCreated_def Let_def split: if_splits prod.splits)
  from p have p': "infoParentID info = Some (the (infoParentID info))"
    by (auto simp: truthy_def split: option.splits)
  show "map_option parentSessionID (getFrame state2 (infoId info)) = Some None"
    by (simp add: s2 createFrame_def getFrame_def Let_def saveState_def update_conv' newFrame_def truthy_def)
  show "map_option successCriteria (getFrame state2 (infoId info)) = infoParentID info"
    using p' by (simp add: s2 createFrame_def getFrame_def Let_def saveState_def update_conv' newFrame_def truthy_def)
  show "rootFrameIDs state2 = rootFrameIDs state @ [infoId info]"
    by (simp add: s2 createFrame_def getFrame_def Let_def saveState_def update_conv' newFrame_def truthy_def)
qed

text \<open>
  The two places on the example: the child session \<open>S1\<close> of \<open>A\<close> with a matching title at
  \<open>session.created\<close>, and the tracked session \<open>S2\<close> of \<open>A\<close> once it meets the heuristics.
\<close>

theorem tracker_frames_are_roots_witness:
  "map_option parentSessionID
     (getFrame (snd (onSessionCreated exRegexTest exRuntime exState 2000 exSessionInfo)) ''S1'')
     = Some None
   \<and> rootFrameIDs (snd (onSessionCreated exRegexTest exRuntime exState 2000 exSessionInfo))
       = [''A'', ''S1'']
   \<and> map_option parentSessionID
       (getFrame (snd (snd (maybeCreateSubagentFrame exTrackingRuntime exState 70000 ''S2''))) ''S2'')
       = Some None
   \<and> rootFrameIDs (snd (snd (maybeCreateSubagentFrame exTrackingRuntime exState 70000 ''S2'')))
       = [''A'', ''S2'']"
proof -
  let ?m = "maybeCreateSubagentFrame exTrackingRuntime exState 70000 ''S2''"
  let ?o = "onSessionCreated exRegexTest exRuntime exState 2000 exSessionInfo"
  have m: "?m = (True, fst (snd ?m), snd (snd ?m))"
    by (simp add: maybeCreateSubagentFrame_def meetsFrameHeuristics_def ex_defs ex2_defs Let_def
          createFrame_def split: prod.splits)
  have s: "map_of (subagentSessions exTrackingRuntime) ''S2'' = Some exTrackedSession"
    by (simp add: ex_defs ex2_defs)
  have o: "?o = (fst ?o, snd ?o) \<and> snd ?o \<noteq> exState"
    by (simp add: onSessionCreated_def registerSubagentSession_def isSubagentTitle_def getFrame_def
          ex_defs ex2_defs Let_def createFrame_def truthy_def saveState_def split: prod.splits)
  show ?thesis
    using tracker_frames_are_roots
            [where rt = exTrackingRuntime and sid = "''S2''" and session = exTrackedSession
               and state = exState and now = 70000 and ?rt1.0 = "fst (snd ?m)"
               and ?state1.0 = "snd (snd ?m)" and ?state2.0 = exState] m s
          tracker_frames_are_roots
            [where rt = exRuntime and state = exState and now = 2000 and regexTest = exRegexTest
               and info = exSessionInfo and ?rt2.0 = "fst ?o" and ?state2.0 = "snd ?o"
               and sid = "''none''"] o
    by (simp add: ex_defs ex2_defs)
qed

section \<open>Invalidation and its cascade\<close>

subsection \<open>The descendants the source computes\<close>

lemma those_map_Some:
  "(\<And>x. x \<in> set xs \<Longrightarrow> \<exists>y. f x = Some y) \<Longrightarrow> those (map f xs) = Some (map (\<lambda>x. the (f x)) xs)"
  by (induction xs) (auto split: option.splits)

lemma those_map_SomeD:
  "those (map f xs) = Some ys \<Longrightarrow> ys = map (\<lambda>x. the (f x)) xs \<and> (\<forall>x\<in>set xs. f x \<noteq> None)"
  by (induction xs arbitrary: ys) (auto split: option.splits)

lemma getAllDescendants_total:
  assumes "ranked rank vals"
  shows "rank p < n \<Longrightarrow> \<exists>ds. getAllDescendants n vals p = Some ds"
proof (induction n arbitrary: p)
  case 0
  then show ?case by simp
next
  case (Suc n)
  have "\<exists>y. getAllDescendants n vals (sessionID c) = Some y"
    if "c \<in> set (filter (\<lambda>f. parentSessionID f = Some p) vals)" for c
  proof -
    from that assms have "rank (sessionID c) < rank p" by (auto simp: ranked_def)
    with Suc.prems have "rank (sessionID c) < n" by simp
    then show ?thesis by (rule Suc.IH)
  qed
  then have "those (map (\<lambda>child. getAllDescendants n vals (sessionID child))
                 (filter (\<lambda>f. parentSessionID f = Some p) vals)) =
             Some (map (\<lambda>c. the (getAllDescendants n vals (sessionID c)))
                 (filter (\<lambda>f. parentSessionID f = Some p) vals))"
    by (rule those_map_Some)
  then show ?case
    by (simp add: Let_def)
qed

lemma getAllDescendants_sound:
  "getAllDescendants n vals p = Some ds \<Longrightarrow> d \<in> set ds \<Longrightarrow> descendantOf vals p d"
proof (induction n arbitrary: p ds)
  case 0
  then show ?case by simp
next
  case (Suc n)
  let ?children = "filter (\<lambda>f. parentSessionID f = Some p) vals"
  from Suc.prems(1) obtain dss where
    dss: "those (map (\<lambda>child. getAllDescendants n vals (sessionID child)) ?children) = Some dss"
    and ds: "ds = ?children @ concat dss"
    by (auto simp: Let_def)
  from those_map_SomeD[OF dss] have
    dss_eq: "dss = map (\<lambda>c. the (getAllDescendants n vals (sessionID c))) ?children"
    and some: "\<forall>c\<in>set ?children. getAllDescendants n vals (sessionID c) \<noteq> None"
    by auto
  from Suc.prems(2) ds consider "d \<in> set ?children" | "d \<in> set (concat dss)" by auto
  then show ?case
  proof cases
    case 1
    then show ?thesis by (auto intro: descendantOf.child)
  next
    case 2
    then obtain c where c: "c \<in> set ?children"
      and d: "d \<in> set (the (getAllDescendants n vals (sessionID c)))"
      by (auto simp: dss_eq)
    from c some obtain dsc where dsc: "getAllDescendants n vals (sessionID c) = Some dsc" by auto
    with d have "descendantOf vals (sessionID c) d" using Suc.IH by auto
    with c show ?thesis by (auto intro: descendantOf.below)
  qed
qed

lemma getAllDescendants_complete:
  "descendantOf vals p d \<Longrightarrow> getAllDescendants n vals p = Some ds \<Longrightarrow> d \<in> set ds"
proof (induction arbitrary: n ds rule: descendantOf.induct)
  case (child f p)
  then show ?case by (cases n) (auto simp: Let_def)
next
  case (below c p f)
  then obtain m where n: "n = Suc m" by (cases n) auto
  let ?children = "filter (\<lambda>f. parentSessionID f = Some p) vals"
  from below.prems n obtain dss where
    dss: "those (map (\<lambda>child. getAllDescendants m vals (sessionID child)) ?children) = Some dss"
    and ds: "ds = ?children @ concat dss"
    by (auto simp: Let_def)
  from those_map_SomeD[OF dss] have
    dss_eq: "dss = map (\<lambda>c. the (getAllDescendants m vals (sessionID c))) ?children"
    and some: "\<forall>c\<in>set ?children. getAllDescendants m vals (sessionID c) \<noteq> None"
    by auto
  from below.hyps have c: "c \<in> set ?children" by simp
  with some obtain dsc where dsc: "getAllDescendants m vals (sessionID c) = Some dsc" by auto
  then have "f \<in> set dsc" by (rule below.IH)
  with c dsc show ?case by (auto simp: ds dss_eq intro!: bexI[of _ c])
qed

lemma descendantOf_member: "descendantOf vals p d \<Longrightarrow> d \<in> set vals"
  by (induction rule: descendantOf.induct) auto

lemma descendantOf_rank:
  "descendantOf vals p d \<Longrightarrow> ranked rank vals \<Longrightarrow> rank (sessionID d) < rank p"
  by (induction rule: descendantOf.induct) (auto simp: ranked_def dest: less_trans)

lemma cascade_closed_form:
  "foldl (cascadeStep now reason) (fs, c, w) ds =
     (cascadeFrames now reason fs ds,
      c @ map (invalidateDescendant now reason) (filter (\<lambda>d. status d = Planned) ds),
      w @ filter (\<lambda>d. status d = InProgress) ds)"
proof (induction ds arbitrary: fs c w)
  case Nil
  then show ?case by (simp add: cascadeFrames_def)
next
  case (Cons d ds)
  have s: "cascadeStep now reason (fs, c, w) d =
             (if status d = Planned
              then (AList.update (sessionID d) (invalidateDescendant now reason d) fs,
                    c @ [invalidateDescendant now reason d], w)
              else if status d = InProgress then (fs, c, w @ [d]) else (fs, c, w))"
    by (simp add: cascadeStep_def Let_def invalidateDescendant_def saveFrame_def)
  show ?case
    by (simp add: s Cons.IH cascadeFrames_def)
qed

lemma cascadeFrames_planned:
  assumes uniq: "\<forall>a\<in>set ds. \<forall>b\<in>set ds. sessionID a = sessionID b \<longrightarrow> a = b"
  shows "d \<in> set ds \<Longrightarrow> status d = Planned \<Longrightarrow>
         map_of (cascadeFrames now reason fs ds) (sessionID d) = Some (invalidateDescendant now reason d)"
  using uniq
proof (induction ds rule: rev_induct)
  case Nil
  then show ?case by simp
next
  case (snoc x xs)
  have step: "cascadeFrames now reason fs (xs @ [x]) =
        (if status x = Planned
         then AList.update (sessionID x) (invalidateDescendant now reason x) (cascadeFrames now reason fs xs)
         else cascadeFrames now reason fs xs)"
    by (simp add: cascadeFrames_def)
  show ?case
  proof (cases "d = x")
    case True
    with snoc.prems show ?thesis by (simp add: step update_conv')
  next
    case False
    with snoc.prems have dx: "d \<in> set xs" by simp
    from snoc.prems(3) have u: "\<forall>a\<in>set xs. \<forall>b\<in>set xs. sessionID a = sessionID b \<longrightarrow> a = b" by simp
    from False snoc.prems(3) dx have ne: "sessionID x \<noteq> sessionID d" by auto
    from snoc.IH[OF dx snoc.prems(2) u] ne show ?thesis by (simp add: step update_conv')
  qed
qed

lemma cascadeFrames_other:
  "(\<forall>d\<in>set ds. status d = Planned \<longrightarrow> sessionID d \<noteq> k) \<Longrightarrow>
   map_of (cascadeFrames now reason fs ds) k = map_of fs k"
proof (induction ds rule: rev_induct)
  case Nil
  then show ?case by (simp add: cascadeFrames_def)
next
  case (snoc x xs)
  have step: "cascadeFrames now reason fs (xs @ [x]) =
        (if status x = Planned
         then AList.update (sessionID x) (invalidateDescendant now reason x) (cascadeFrames now reason fs xs)
         else cascadeFrames now reason fs xs)"
    by (simp add: cascadeFrames_def)
  from snoc show ?case by (auto simp add: step update_conv')
qed


lemma keysConsistent_lookup:
  "keysConsistent fs \<Longrightarrow> f \<in> set (frameValues fs) \<Longrightarrow> map_of fs (sessionID f) = Some f"
  by (auto simp: keysConsistent_def frameValues_def list_all_iff)

lemma keysConsistent_unique:
  "keysConsistent fs \<Longrightarrow> a \<in> set (frameValues fs) \<Longrightarrow> b \<in> set (frameValues fs)
     \<Longrightarrow> sessionID a = sessionID b \<Longrightarrow> a = b"
  by (metis keysConsistent_lookup option.inject)

text \<open>The empty store is key-consistent, and \<open>createFrame\<close> and \<open>completeFrame\<close> keep it so.\<close>

lemma keysConsistent_empty: "keysConsistent []"
  by (simp add: keysConsistent_def)

lemma update_entries: "set (AList.update k v al) \<subseteq> insert (k, v) (set al)"
  by (induction al) auto

lemma keysConsistent_update:
  assumes "keysConsistent fs" and "sessionID f = sid"
  shows "keysConsistent (AList.update sid f fs)"
proof -
  from assms(1) have "distinct (map fst (AList.update sid f fs))"
    by (simp add: keysConsistent_def distinct_update)
  moreover have "list_all (\<lambda>(k, f). sessionID f = k) (AList.update sid f fs)"
    using assms update_entries[of sid f fs]
    by (auto simp: keysConsistent_def list_all_iff)
  ultimately show ?thesis by (simp add: keysConsistent_def)
qed

lemma keysConsistent_createFrame:
  "keysConsistent (frames state)
     \<Longrightarrow> keysConsistent (frames (snd (createFrame state now sid ttl criteria compacted parent)))"
  by (simp add: createFrame_def Let_def saveState_def newFrame_def keysConsistent_update)

lemma keysConsistent_completeFrame:
  "keysConsistent (frames state)
     \<Longrightarrow> keysConsistent (frames (snd (completeFrame state now sid st res resCompacted)))"
proof (cases "map_of (frames state) sid")
  case None
  assume "keysConsistent (frames state)"
  with None show ?thesis by (simp add: completeFrame_def)
next
  case (Some frame)
  assume k: "keysConsistent (frames state)"
  from Some have "(sid, frame) \<in> set (frames state)" by (rule map_of_SomeD)
  with k have "sessionID frame = sid" by (auto simp: keysConsistent_def list_all_iff)
  with k Some show ?thesis
    by (simp add: completeFrame_def Let_def saveState_def saveFrame_def keysConsistent_update)
qed

lemma map_no_key:
  "sid \<notin> fst ` set fs \<Longrightarrow> map (\<lambda>(k, f). if k = sid then f1 else f) fs = map snd fs"
  by (induction fs) auto

lemma frameValues_update:
  "distinct (map fst fs) \<Longrightarrow> map_of fs sid = Some f0 \<Longrightarrow>
   frameValues (AList.update sid f1 fs) = map (\<lambda>(k, f). if k = sid then f1 else f) fs"
  unfolding frameValues_def
proof (induction fs)
  case Nil
  then show ?case by simp
next
  case (Cons a fs)
  show ?case
  proof (cases "fst a = sid")
    case True
    with Cons.prems have "sid \<notin> fst ` set fs" by auto
    then have "map (\<lambda>(k, f). if k = sid then f1 else f) fs = map snd fs"
      by (rule map_no_key)
    with True show ?thesis by (cases a) simp
  next
    case False
    with Cons show ?thesis by (cases a) simp
  qed
qed

lemma children_update:
  assumes kc: "keysConsistent fs" and rk: "ranked rank (frameValues fs)"
    and f0: "map_of fs sid = Some f0"
    and par: "parentSessionID f1 = parentSessionID f0"
    and q: "rank q \<le> rank sid"
  shows "filter (\<lambda>f. parentSessionID f = Some q) (frameValues (AList.update sid f1 fs))
         = filter (\<lambda>f. parentSessionID f = Some q) (frameValues fs)"
proof -
  from kc have d: "distinct (map fst fs)" by (simp add: keysConsistent_def)
  from f0 have m0: "f0 \<in> set (frameValues fs)"
    by (force simp: frameValues_def dest: map_of_SomeD)
  from kc m0 have s0: "sessionID f0 = sid"
    using f0 keysConsistent_lookup[OF kc m0] d
    by (metis (mono_tags, lifting) case_prodD f0 keysConsistent_def list_all_iff map_of_SomeD)
  have n0: "parentSessionID f0 \<noteq> Some q"
  proof
    assume "parentSessionID f0 = Some q"
    with rk m0 have "rank (sessionID f0) < rank q" by (auto simp: ranked_def)
    with s0 q show False by simp
  qed
  have "filter (\<lambda>f. parentSessionID f = Some q) (map (\<lambda>(k, f). if k = sid then f1 else f) fs)
        = filter (\<lambda>f. parentSessionID f = Some q) (map snd fs)"
    using kc d f0
  proof (induction fs)
    case Nil
    then show ?case by simp
  next
    case (Cons a fs)
    obtain k f where a: "a = (k, f)" by (cases a)
    show ?case
    proof (cases "k = sid")
      case True
      with Cons.prems a have f: "f = f0" by simp
      from Cons.prems a True have "sid \<notin> fst ` set fs" by auto
      then have e: "map (\<lambda>(k, f). if k = sid then f1 else f) fs = map snd fs"
        by (rule map_no_key)
      from True a f n0 par show ?thesis by (simp add: e)
    next
      case False
      from Cons.prems have "keysConsistent fs" by (simp add: keysConsistent_def)
      moreover from Cons.prems have "distinct (map fst fs)" by simp
      moreover from Cons.prems False a have "map_of fs sid = Some f0" by simp
      ultimately have "filter (\<lambda>f. parentSessionID f = Some q)
                         (map (\<lambda>(k, f). if k = sid then f1 else f) fs)
                       = filter (\<lambda>f. parentSessionID f = Some q) (map snd fs)"
        by (rule Cons.IH)
      with False a show ?thesis by simp
    qed
  qed
  then show ?thesis
    by (simp add: frameValues_update[OF d f0]) (simp add: frameValues_def)
qed

lemma getAllDescendants_update:
  assumes kc: "keysConsistent fs" and rk: "ranked rank (frameValues fs)"
    and f0: "map_of fs sid = Some f0"
    and par: "parentSessionID f1 = parentSessionID f0"
  shows "rank q \<le> rank sid \<Longrightarrow>
         getAllDescendants n (frameValues (AList.update sid f1 fs)) q
         = getAllDescendants n (frameValues fs) q"
proof (induction n arbitrary: q)
  case 0
  then show ?case by simp
next
  case (Suc n)
  let ?ch = "filter (\<lambda>f. parentSessionID f = Some q) (frameValues fs)"
  have ch: "filter (\<lambda>f. parentSessionID f = Some q) (frameValues (AList.update sid f1 fs)) = ?ch"
    using kc rk f0 par Suc.prems by (rule children_update)
  have meq: "map (\<lambda>child. getAllDescendants n (frameValues (AList.update sid f1 fs)) (sessionID child)) ?ch
        = map (\<lambda>child. getAllDescendants n (frameValues fs) (sessionID child)) ?ch"
  proof (rule map_cong[OF refl])
    fix c assume "c \<in> set ?ch"
    with rk have "rank (sessionID c) < rank q" by (auto simp: ranked_def)
    with Suc.prems have "rank (sessionID c) \<le> rank sid" by simp
    then show "getAllDescendants n (frameValues (AList.update sid f1 fs)) (sessionID c)
               = getAllDescendants n (frameValues fs) (sessionID c)"
      by (rule Suc.IH)
  qed
  show ?case by (simp add: ch Let_def meq)
qed

subsection \<open>The loop over the descendants\<close>

lemma invalidateFrame_result:
  assumes kc: "keysConsistent (frames state)"
    and rk: "ranked rank (frameValues (frames state))"
    and fr: "getFrame state sid = Some frame0"
    and fuel: "rank sid < fuel"
  shows "\<exists>ds. getAllDescendants fuel (frameValues (frames state)) sid = Some ds \<and>
     invalidateFrame fuel state now sid reason =
       Some (Some \<lparr>invalidated = invalidateTarget now reason frame0,
                   cascadedPlanned = map (invalidateDescendant now reason)
                                       (filter (\<lambda>d. status d = Planned) ds),
                   warningInProgress = filter (\<lambda>d. status d = InProgress) ds\<rparr>,
             saveState now
               (state\<lparr>frames := cascadeFrames now reason
                                   (AList.update sid (invalidateTarget now reason frame0) (frames state)) ds,
                      activeFrameID := (if activeFrameID state = Some sid
                                        then parentSessionID frame0 else activeFrameID state)\<rparr>))"
proof -
  from getAllDescendants_total[OF rk fuel] obtain ds
    where ds: "getAllDescendants fuel (frameValues (frames state)) sid = Some ds" by blast
  from fr have f0: "map_of (frames state) sid = Some frame0" by (simp add: getFrame_def)
  have "getAllDescendants fuel
           (frameValues (AList.update sid (invalidateTarget now reason frame0) (frames state))) sid
        = getAllDescendants fuel (frameValues (frames state)) sid"
    by (rule getAllDescendants_update[OF kc rk f0]) (simp_all add: invalidateTarget_def)
  with ds have ds1: "getAllDescendants fuel
           (frameValues (AList.update sid (invalidateTarget now reason frame0) (frames state))) sid
        = Some ds" by simp
  have t: "saveFrame now (frame0\<lparr>status := Invalidated, invalidationReason := Some reason,
                                  invalidatedAt := Some now, updatedAt := now\<rparr>)
           = invalidateTarget now reason frame0"
    by (simp add: saveFrame_def invalidateTarget_def)
  have pt: "parentSessionID (invalidateTarget now reason frame0) = parentSessionID frame0"
    by (simp add: invalidateTarget_def)
  show ?thesis
    by (rule exI[of _ ds])
       (simp add: ds invalidateFrame_def f0 Let_def t ds1 cascade_closed_form pt)
qed

lemma invalidateFrame_lookups:
  assumes kc: "keysConsistent (frames state)"
    and rk: "ranked rank (frameValues (frames state))"
    and fr: "getFrame state sid = Some frame0"
    and ds: "getAllDescendants fuel (frameValues (frames state)) sid = Some ds"
  shows "map_of (cascadeFrames now reason
                   (AList.update sid (invalidateTarget now reason frame0) (frames state)) ds) sid
           = Some (invalidateTarget now reason frame0)"
    and "d \<in> set ds \<Longrightarrow> status d = Planned \<Longrightarrow>
         map_of (cascadeFrames now reason
                   (AList.update sid (invalidateTarget now reason frame0) (frames state)) ds)
           (sessionID d) = Some (invalidateDescendant now reason d)"
    and "d \<in> set ds \<Longrightarrow> status d \<noteq> Planned \<Longrightarrow>
         map_of (cascadeFrames now reason
                   (AList.update sid (invalidateTarget now reason frame0) (frames state)) ds)
           (sessionID d) = Some d"
proof -
  let ?vals = "frameValues (frames state)"
  let ?fs1 = "AList.update sid (invalidateTarget now reason frame0) (frames state)"
  have desc: "\<And>x. x \<in> set ds \<Longrightarrow> descendantOf ?vals sid x"
    using ds by (rule getAllDescendants_sound)
  have mem: "\<And>x. x \<in> set ds \<Longrightarrow> x \<in> set ?vals"
    using desc by (rule descendantOf_member)
  have ne: "\<And>x. x \<in> set ds \<Longrightarrow> sessionID x \<noteq> sid"
    using descendantOf_rank[OF desc rk] by fastforce
  have uniq: "\<forall>a\<in>set ds. \<forall>b\<in>set ds. sessionID a = sessionID b \<longrightarrow> a = b"
    using keysConsistent_unique[OF kc] mem by blast
  show "map_of (cascadeFrames now reason ?fs1 ds) sid = Some (invalidateTarget now reason frame0)"
    using ne by (subst cascadeFrames_other) (auto simp: update_conv')
  show "map_of (cascadeFrames now reason ?fs1 ds) (sessionID d)
          = Some (invalidateDescendant now reason d)"
    if "d \<in> set ds" "status d = Planned"
    using uniq that by (rule cascadeFrames_planned)
  show "map_of (cascadeFrames now reason ?fs1 ds) (sessionID d) = Some d"
    if d: "d \<in> set ds" and np: "status d \<noteq> Planned"
  proof -
    have "\<forall>x\<in>set ds. status x = Planned \<longrightarrow> sessionID x \<noteq> sessionID d"
      using uniq d np by auto
    then have "map_of (cascadeFrames now reason ?fs1 ds) (sessionID d) = map_of ?fs1 (sessionID d)"
      by (rule cascadeFrames_other)
    also have "\<dots> = map_of (frames state) (sessionID d)"
      using ne[OF d] by (simp add: update_conv')
    also have "\<dots> = Some d"
      using kc mem[OF d] by (rule keysConsistent_lookup)
    finally show ?thesis .
  qed
qed

subsection \<open>The cascade\<close>

text \<open>
  C2: in a key-consistent, acyclic aggregate, with stack for the recursion, invalidating an
  existing frame returns; the frame gets the status \<open>invalidated\<close>, the reason and the time;
  every descendant that is \<open>planned\<close> is stored invalidated with the reason
  \<open>Parent frame invalidated: \<close> followed by the reason, and these are the frames of
  \<open>cascadedPlanned\<close>; every descendant \<open>in_progress\<close> is stored unchanged and is in
  \<open>warningInProgress\<close>, which holds nothing else; every descendant that is \<open>completed\<close>,
  \<open>failed\<close> or \<open>invalidated\<close> is stored unchanged; and \<open>activeFrameID\<close> moves to the parent
  exactly when the invalidated frame was active.
\<close>

theorem invalidateFrame_cascades:
  assumes kc: "keysConsistent (frames state)"
    and rk: "ranked rank (frameValues (frames state))"
    and fr: "getFrame state sid = Some frame"
    and fuel: "rank sid < fuel"
  shows "\<exists>res state'.
     invalidateFrame fuel state now sid reason = Some (Some res, state')
     \<and> invalidated res = frame\<lparr>status := Invalidated, invalidationReason := Some reason,
                                 invalidatedAt := Some now, updatedAt := now\<rparr>
     \<and> getFrame state' sid = Some (invalidated res)
     \<and> (\<forall>d. descendantOf (frameValues (frames state)) sid d \<longrightarrow>
           (status d = Planned \<longrightarrow>
              getFrame state' (sessionID d)
                = Some (d\<lparr>status := Invalidated,
                           invalidationReason := Some (''Parent frame invalidated: '' @ reason),
                           invalidatedAt := Some now, updatedAt := now\<rparr>))
         \<and> (status d = InProgress \<longrightarrow>
              getFrame state' (sessionID d) = Some d \<and> d \<in> set (warningInProgress res))
         \<and> (status d = Completed \<or> status d = Failed \<or> status d = Invalidated \<longrightarrow>
              getFrame state' (sessionID d) = Some d))
     \<and> set (cascadedPlanned res)
         = (\<lambda>d. d\<lparr>status := Invalidated,
                    invalidationReason := Some (''Parent frame invalidated: '' @ reason),
                    invalidatedAt := Some now, updatedAt := now\<rparr>)
           ` {d. descendantOf (frameValues (frames state)) sid d \<and> status d = Planned}
     \<and> set (warningInProgress res)
         = {d. descendantOf (frameValues (frames state)) sid d \<and> status d = InProgress}
     \<and> activeFrameID state'
         = (if activeFrameID state = Some sid then parentSessionID frame else activeFrameID state)"
proof -
  let ?vals = "frameValues (frames state)"
  from invalidateFrame_result[OF kc rk fr fuel, of now reason] obtain ds where
    ds: "getAllDescendants fuel ?vals sid = Some ds" and
    res: "invalidateFrame fuel state now sid reason =
       Some (Some \<lparr>invalidated = invalidateTarget now reason frame,
                   cascadedPlanned = map (invalidateDescendant now reason)
                                       (filter (\<lambda>d. status d = Planned) ds),
                   warningInProgress = filter (\<lambda>d. status d = InProgress) ds\<rparr>,
             saveState now
               (state\<lparr>frames := cascadeFrames now reason
                                   (AList.update sid (invalidateTarget now reason frame) (frames state)) ds,
                      activeFrameID := (if activeFrameID state = Some sid
                                        then parentSessionID frame else activeFrameID state)\<rparr>))"
    by blast
  have set_ds: "set ds = {d. descendantOf ?vals sid d}"
    using getAllDescendants_sound[OF ds] getAllDescendants_complete[OF _ ds] by blast
  have inv: "invalidateDescendant now reason d
       = d\<lparr>status := Invalidated,
            invalidationReason := Some (''Parent frame invalidated: '' @ reason),
            invalidatedAt := Some now, updatedAt := now\<rparr>" for d
    by (simp add: invalidateDescendant_def saveFrame_def cascadeReason_def)
  note lk = invalidateFrame_lookups[OF kc rk fr ds, where now = now and reason = reason]
  define res where "res = \<lparr>invalidated = invalidateTarget now reason frame,
                   cascadedPlanned = map (invalidateDescendant now reason)
                                       (filter (\<lambda>d. status d = Planned) ds),
                   warningInProgress = filter (\<lambda>d. status d = InProgress) ds\<rparr>"
  define state' where "state' = saveState now
               (state\<lparr>frames := cascadeFrames now reason
                                   (AList.update sid (invalidateTarget now reason frame) (frames state)) ds,
                      activeFrameID := (if activeFrameID state = Some sid
                                        then parentSessionID frame else activeFrameID state)\<rparr>)"
  have get: "getFrame state' k = map_of (cascadeFrames now reason
                (AList.update sid (invalidateTarget now reason frame) (frames state)) ds) k" for k
    by (simp add: getFrame_def state'_def saveState_def)
  have c1: "invalidateFrame fuel state now sid reason = Some (Some res, state')"
    by (simp add: res res_def state'_def)
  have c2: "invalidated res = frame\<lparr>status := Invalidated, invalidationReason := Some reason,
                                 invalidatedAt := Some now, updatedAt := now\<rparr>"
    by (simp add: res_def invalidateTarget_def)
  have c3: "getFrame state' sid = Some (invalidated res)"
    by (simp add: get lk(1) res_def)
  have c4: "(status d = Planned \<longrightarrow>
              getFrame state' (sessionID d)
                = Some (d\<lparr>status := Invalidated,
                           invalidationReason := Some (''Parent frame invalidated: '' @ reason),
                           invalidatedAt := Some now, updatedAt := now\<rparr>))
         \<and> (status d = InProgress \<longrightarrow>
              getFrame state' (sessionID d) = Some d \<and> d \<in> set (warningInProgress res))
         \<and> (status d = Completed \<or> status d = Failed \<or> status d = Invalidated \<longrightarrow>
              getFrame state' (sessionID d) = Some d)"
    if "descendantOf ?vals sid d" for d
  proof -
    from that have d: "d \<in> set ds" by (simp add: set_ds)
    show ?thesis
    proof (intro conjI impI)
      assume "status d = Planned"
      with lk(2)[OF d] show "getFrame state' (sessionID d)
                = Some (d\<lparr>status := Invalidated,
                           invalidationReason := Some (''Parent frame invalidated: '' @ reason),
                           invalidatedAt := Some now, updatedAt := now\<rparr>)"
        by (simp add: get inv)
    next
      assume "status d = InProgress"
      then have "status d \<noteq> Planned" by simp
      from lk(3)[OF d this] show "getFrame state' (sessionID d) = Some d" by (simp add: get)
    next
      assume "status d = InProgress"
      with d show "d \<in> set (warningInProgress res)" by (simp add: res_def)
    next
      assume "status d = Completed \<or> status d = Failed \<or> status d = Invalidated"
      then have "status d \<noteq> Planned" by auto
      from lk(3)[OF d this] show "getFrame state' (sessionID d) = Some d" by (simp add: get)
    qed
  qed
  have c5: "set (cascadedPlanned res)
         = (\<lambda>d. d\<lparr>status := Invalidated,
                    invalidationReason := Some (''Parent frame invalidated: '' @ reason),
                    invalidatedAt := Some now, updatedAt := now\<rparr>)
           ` {d. descendantOf ?vals sid d \<and> status d = Planned}"
    using set_ds by (auto simp add: res_def inv)
  have c6: "set (warningInProgress res)
         = {d. descendantOf ?vals sid d \<and> status d = InProgress}"
    using set_ds by (auto simp add: res_def)
  have c7: "activeFrameID state'
         = (if activeFrameID state = Some sid then parentSessionID frame else activeFrameID state)"
    by (simp add: state'_def saveState_def)
  from c1 c2 c3 c4 c5 c6 c7 show ?thesis by blast
qed

text \<open>The scenario of the specification, with a nested planned frame added.\<close>

theorem invalidateFrame_cascades_witness:
  "keysConsistent (frames exCascadeState)
   \<and> ranked exRank (frameValues (frames exCascadeState))
   \<and> exRank ''P'' < 3
   \<and> map_option
        (\<lambda>(res, st). (map_option (map sessionID \<circ> cascadedPlanned) res,
                       map_option (map sessionID \<circ> warningInProgress) res,
                       map (\<lambda>(k, f). (k, status f, invalidationReason f)) (frames st),
                       activeFrameID st))
        (invalidateFrame 3 exCascadeState 2000 ''P'' ''obsolete'')
      = Some (Some [''P1'', ''P2'', ''G1''], Some [''I1''],
              [(''P'', Invalidated, Some ''obsolete''),
               (''P1'', Invalidated, Some ''Parent frame invalidated: obsolete''),
               (''P2'', Invalidated, Some ''Parent frame invalidated: obsolete''),
               (''I1'', InProgress, None),
               (''C1'', Completed, None),
               (''G1'', Invalidated, Some ''Parent frame invalidated: obsolete'')],
              None)"
proof -
  have kc: "keysConsistent (frames exCascadeState)"
    by (simp add: keysConsistent_def ex3_defs)
  have rk: "ranked exRank (frameValues (frames exCascadeState))"
    by (simp add: ranked_def frameValues_def ex3_defs)
  have fr: "getFrame exCascadeState ''P''
              = Some (newFrame 1000 ''P'' ''Parent'' ''ship it'' (Some ''ship'') None InProgress
                       (Some [''P1'', ''P2'']))"
    by (simp add: getFrame_def ex3_defs)
  have fuel: "exRank ''P'' < 3"
    by (simp add: exRank_def)
  have ev: "map_option
        (\<lambda>(res, st). (map_option (map sessionID \<circ> cascadedPlanned) res,
                       map_option (map sessionID \<circ> warningInProgress) res,
                       map (\<lambda>(k, f). (k, status f, invalidationReason f)) (frames st),
                       activeFrameID st))
        (invalidateFrame 3 exCascadeState 2000 ''P'' ''obsolete'')
      = Some (Some [''P1'', ''P2'', ''G1''], Some [''I1''],
              [(''P'', Invalidated, Some ''obsolete''),
               (''P1'', Invalidated, Some ''Parent frame invalidated: obsolete''),
               (''P2'', Invalidated, Some ''Parent frame invalidated: obsolete''),
               (''I1'', InProgress, None),
               (''C1'', Completed, None),
               (''G1'', Invalidated, Some ''Parent frame invalidated: obsolete'')],
              None)"
    by code_simp
  from invalidateFrame_cascades[OF kc rk fr fuel, of 2000 "''obsolete''"] kc rk fuel ev
  show ?thesis by simp
qed

subsection \<open>Invalidating twice\<close>

text \<open>
  C6, as stated, fails: \<open>invalidateFrame\<close> has no check of the status.  Frame \<open>X\<close> of the
  example is already invalidated (reason \<open>superseded\<close>, at time 1500); invalidating it again
  overwrites the reason and the times and invalidates its planned child \<open>Y\<close>.
\<close>

theorem invalidateFrame_again_overwrites:
  "getFrame exReinvalidateState ''X'' = Some exInvalidatedX
   \<and> status exInvalidatedX = Invalidated
   \<and> invalidationReason exInvalidatedX = Some ''superseded''
   \<and> invalidatedAt exInvalidatedX = Some 1500
   \<and> getFrame exReinvalidateState ''Y'' = Some exPlannedY
   \<and> invalidateFrame 2 exReinvalidateState 2000 ''X'' ''again''
      = Some (Some \<lparr>invalidated = exInvalidatedX\<lparr>invalidationReason := Some ''again'',
                                                  invalidatedAt := Some 2000, updatedAt := 2000\<rparr>,
                    cascadedPlanned =
                      [exPlannedY\<lparr>status := Invalidated,
                                  invalidationReason := Some ''Parent frame invalidated: again'',
                                  invalidatedAt := Some 2000, updatedAt := 2000\<rparr>],
                    warningInProgress = []\<rparr>,
              exReinvalidateState
                \<lparr>frames :=
                   [(''X'', exInvalidatedX\<lparr>invalidationReason := Some ''again'',
                                           invalidatedAt := Some 2000, updatedAt := 2000\<rparr>),
                    (''Y'', exPlannedY\<lparr>status := Invalidated,
                                      invalidationReason := Some ''Parent frame invalidated: again'',
                                      invalidatedAt := Some 2000, updatedAt := 2000\<rparr>)],
                 stateUpdatedAt := 2000\<rparr>)"
  by (simp add: getFrame_def invalidateFrame_def ex3_defs Let_def saveFrame_def saveState_def
        frameValues_def numeral_2_eq_2 cascadeStep_def invalidateDescendant_def cascadeReason_def)

text \<open>
  C6 (amended): invalidating a frame that is already \<open>invalidated\<close> is not a no-op.  The
  status stays \<open>invalidated\<close>, but \<open>invalidationReason\<close>, \<open>invalidatedAt\<close> and \<open>updatedAt\<close> are
  overwritten with the reason and the time of the new call, and the cascade runs again:
  every descendant that is \<open>planned\<close> at that moment is invalidated and returned in
  \<open>cascadedPlanned\<close>.
\<close>

theorem invalidateFrame_again:
  assumes kc: "keysConsistent (frames state)"
    and rk: "ranked rank (frameValues (frames state))"
    and fr: "getFrame state sid = Some frame"
    and st: "status frame = Invalidated"
    and fuel: "rank sid < fuel"
  shows "\<exists>res state'.
     invalidateFrame fuel state now sid reason = Some (Some res, state')
     \<and> invalidated res = frame\<lparr>invalidationReason := Some reason, invalidatedAt := Some now,
                                 updatedAt := now\<rparr>
     \<and> getFrame state' sid = Some (invalidated res)
     \<and> set (cascadedPlanned res)
         = invalidateDescendant now reason
           ` {d. descendantOf (frameValues (frames state)) sid d \<and> status d = Planned}
     \<and> (\<forall>d. descendantOf (frameValues (frames state)) sid d \<and> status d = Planned \<longrightarrow>
            getFrame state' (sessionID d) = Some (invalidateDescendant now reason d))"
proof -
  let ?vals = "frameValues (frames state)"
  from invalidateFrame_result[OF kc rk fr fuel, of now reason] obtain ds where
    ds: "getAllDescendants fuel ?vals sid = Some ds" and
    res: "invalidateFrame fuel state now sid reason =
       Some (Some \<lparr>invalidated = invalidateTarget now reason frame,
                   cascadedPlanned = map (invalidateDescendant now reason)
                                       (filter (\<lambda>d. status d = Planned) ds),
                   warningInProgress = filter (\<lambda>d. status d = InProgress) ds\<rparr>,
             saveState now
               (state\<lparr>frames := cascadeFrames now reason
                                   (AList.update sid (invalidateTarget now reason frame) (frames state)) ds,
                      activeFrameID := (if activeFrameID state = Some sid
                                        then parentSessionID frame else activeFrameID state)\<rparr>))"
    by blast
  have set_ds: "set ds = {d. descendantOf ?vals sid d}"
    using getAllDescendants_sound[OF ds] getAllDescendants_complete[OF _ ds] by blast
  note lk = invalidateFrame_lookups[OF kc rk fr ds, where now = now and reason = reason]
  have tgt: "invalidateTarget now reason frame
             = frame\<lparr>invalidationReason := Some reason, invalidatedAt := Some now, updatedAt := now\<rparr>"
    using st by (simp add: invalidateTarget_def)
  have c4: "getFrame (saveState now
               (state\<lparr>frames := cascadeFrames now reason
                                   (AList.update sid (invalidateTarget now reason frame) (frames state)) ds,
                      activeFrameID := (if activeFrameID state = Some sid
                                        then parentSessionID frame else activeFrameID state)\<rparr>))
              (sessionID d) = Some (invalidateDescendant now reason d)"
    if "descendantOf ?vals sid d \<and> status d = Planned" for d
    using that lk(2)[of d] by (simp add: getFrame_def saveState_def set_ds)
  have c5: "set (map (invalidateDescendant now reason) (filter (\<lambda>d. status d = Planned) ds))
         = invalidateDescendant now reason ` {d. descendantOf ?vals sid d \<and> status d = Planned}"
    using set_ds by auto
  show ?thesis
    apply (rule exI, rule exI)
    apply (intro conjI)
        apply (rule res)
       apply (simp add: tgt)
      apply (simp add: getFrame_def saveState_def lk(1))
     apply (simp only: InvalidateResult.simps c5)
    using c4 apply blast
    done
qed

text \<open>On the example.\<close>

theorem invalidateFrame_again_witness:
  "keysConsistent (frames exReinvalidateState)
   \<and> ranked exRankXY (frameValues (frames exReinvalidateState))
   \<and> status exInvalidatedX = Invalidated
   \<and> map_option (map_option (invalidationReason \<circ> invalidated) \<circ> fst)
       (invalidateFrame 2 exReinvalidateState 2000 ''X'' ''again'') = Some (Some (Some ''again''))"
proof -
  have kc: "keysConsistent (frames exReinvalidateState)"
    by (simp add: keysConsistent_def ex3_defs)
  have rk: "ranked exRankXY (frameValues (frames exReinvalidateState))"
    by (simp add: ranked_def frameValues_def ex3_defs)
  have fr: "getFrame exReinvalidateState ''X'' = Some exInvalidatedX"
    by (simp add: getFrame_def ex3_defs)
  have st: "status exInvalidatedX = Invalidated"
    by (simp add: ex3_defs)
  have fuel: "exRankXY ''X'' < 2"
    by (simp add: exRankXY_def)
  from invalidateFrame_again[OF kc rk fr st fuel, of 2000 "''again''"] kc rk st
  show ?thesis by auto
qed

section \<open>Identity replacement\<close>

subsection \<open>What \<open>replaceFrameID\<close> stores under each key\<close>

lemma map_of_reparentChildren:
  "map_of (reparentChildren now oldID newID fs) k =
     map_option (\<lambda>f. if parentSessionID f = Some oldID
                      then saveFrame now (f\<lparr>parentSessionID := Some newID\<rparr>) else f)
       (map_of fs k)"
  unfolding reparentChildren_def
  by (induction fs) auto

lemma keys_reparentChildren:
  "map fst (reparentChildren now oldID newID fs) = map fst fs"
  unfolding reparentChildren_def by (induction fs) auto

lemma map_of_replaceInParent:
  "map_of (replaceInParent now oldID newID fs) k =
     (case map_of fs newID of
        None \<Rightarrow> map_of fs k
      | Some frame \<Rightarrow>
          if truthy (parentSessionID frame) \<and> k = the (parentSessionID frame)
          then map_option
                 (\<lambda>parent. case plannedChildren parent of
                              None \<Rightarrow> parent
                            | Some kids \<Rightarrow>
                                if oldID \<in> set kids
                                then saveFrame now
                                       (parent\<lparr>plannedChildren := Some (replaceFirst oldID newID kids)\<rparr>)
                                else parent)
                 (map_of fs k)
          else map_of fs k)"
  by (auto simp: replaceInParent_def update_conv' split: option.splits)

lemma distinct_replaceInParent:
  "distinct (map fst fs) \<Longrightarrow> distinct (map fst (replaceInParent now oldID newID fs))"
  by (auto simp: replaceInParent_def distinct_update split: option.splits)

lemma map_of_map_entry:
  "map_of (AList.map_entry k g fs) k' =
     (if k' = k then map_option g (map_of fs k) else map_of fs k')"
  by (induction fs) auto

lemma replaceFrameID_distinct:
  assumes "distinct (map fst (frames state))"
  shows "distinct (map fst (frames (replaceFrameID state now oldID newID)))"
  using assms
  by (auto simp add: replaceFrameID_def Let_def saveState_def distinct_map_entry
        distinct_replaceInParent keys_reparentChildren distinct_update distinct_delete
        split: option.splits)

lemma relinkFrame_comp:
  "relinkFrame now oldID newID f = replanFrame now oldID newID (reparentFrame now oldID newID f)"
  by (simp add: relinkFrame_def replanFrame_def reparentFrame_def Let_def)

lemma replaceFrameID_lookup:
  assumes fr: "getFrame state oldID = Some frame" and ne: "newID \<noteq> oldID"
  shows "getFrame (replaceFrameID state now oldID newID) k =
     (if k = oldID then None
      else map_option
             (\<lambda>f. let g = (if parentKeyAfter oldID newID frame = Some k
                            then relinkFrame now oldID newID f
                            else reparentFrame now oldID newID f)
                   in if k = newID then saveFrame now g else g)
             (if k = newID then Some (frame\<lparr>sessionID := newID, updatedAt := now\<rparr>)
              else getFrame state k))"
proof -
  let ?frame1 = "frame\<lparr>sessionID := newID, updatedAt := now\<rparr>"
  let ?fs1 = "AList.update newID ?frame1 (AList.delete oldID (frames state))"
  let ?fs2 = "reparentChildren now oldID newID ?fs1"
  let ?fs3 = "replaceInParent now oldID newID ?fs2"
  let ?fs4 = "AList.map_entry newID (saveFrame now) ?fs3"
  have m1: "map_of ?fs1 k = (if k = newID then Some ?frame1
                             else if k = oldID then None else map_of (frames state) k)" for k
    by (simp add: update_conv' delete_conv')
  have m2: "map_of ?fs2 k = map_option (reparentFrame now oldID newID) (map_of ?fs1 k)" for k
    unfolding reparentFrame_def by (rule map_of_reparentChildren)
  have l2: "map_of ?fs2 newID = Some (reparentFrame now oldID newID ?frame1)"
    by (simp add: m2 m1)
  have p2: "parentSessionID (reparentFrame now oldID newID ?frame1)
            = map_option (renameID oldID newID) (parentSessionID frame)"
    by (cases "parentSessionID frame") (auto simp: reparentFrame_def saveFrame_def renameID_def)
  have pk: "(truthy (map_option (renameID oldID newID) (parentSessionID frame))
             \<and> k = the (map_option (renameID oldID newID) (parentSessionID frame)))
            = (parentKeyAfter oldID newID frame = Some k)" for k
    by (cases "parentSessionID frame") (auto simp: parentKeyAfter_def Let_def truthy_def)
  have m3: "map_of ?fs3 k = (if parentKeyAfter oldID newID frame = Some k
                             then map_option (replanFrame now oldID newID) (map_of ?fs2 k)
                             else map_of ?fs2 k)" for k
    by (simp only: map_of_replaceInParent l2 option.case p2 pk replanFrame_def[symmetric])
  have m4: "map_of ?fs4 k = (if k = newID then map_option (saveFrame now) (map_of ?fs3 k)
                             else map_of ?fs3 k)" for k
    by (simp add: map_of_map_entry)
  have res: "getFrame (replaceFrameID state now oldID newID) k = map_of ?fs4 k"
    using fr by (simp add: getFrame_def replaceFrameID_def Let_def saveState_def)
  show ?thesis
    unfolding res m4 m3 m2 m1 using ne
    by (auto simp add: getFrame_def relinkFrame_comp Let_def option.map_comp comp_def
          split: option.splits)
qed

lemma replaceFrameID_roots:
  assumes fr: "getFrame state oldID = Some frame"
  shows "rootFrameIDs (replaceFrameID state now oldID newID)
         = replaceFirst oldID newID (rootFrameIDs state)"
proof -
  have "replaceFirst a b xs = xs" if "a \<notin> set xs" for a b :: string and xs
    using that by (induction xs) auto
  with fr show ?thesis
    by (auto simp add: replaceFrameID_def getFrame_def Let_def saveState_def)
qed

lemma replaceFrameID_active:
  assumes fr: "getFrame state oldID = Some frame"
  shows "activeFrameID (replaceFrameID state now oldID newID)
         = map_option (renameID oldID newID) (activeFrameID state)"
  using fr
  by (cases "activeFrameID state")
     (auto simp add: replaceFrameID_def getFrame_def Let_def saveState_def renameID_def)


subsection \<open>Replacing the first occurrence and renaming\<close>

lemma replaceFirst_once:
  "count_list xs a \<le> 1 \<Longrightarrow> replaceFirst a b xs = map (renameID a b) xs"
proof (induction xs)
  case Nil
  then show ?case by simp
next
  case (Cons x xs)
  show ?case
  proof (cases "x = a")
    case True
    with Cons.prems have "a \<notin> set xs" by (simp add: count_list_0_iff)
    then have "map (renameID a b) xs = xs" by (auto simp: renameID_def intro: map_idI)
    with True show ?thesis by (simp add: renameID_def[of a b a])
  next
    case False
    with Cons show ?thesis by (simp add: renameID_def)
  qed
qed

lemma replaceFirst_twice:
  "2 \<le> count_list xs a \<Longrightarrow> a \<in> set (replaceFirst a b xs)"
proof (induction xs)
  case Nil
  then show ?case by simp
next
  case (Cons x xs)
  show ?case
  proof (cases "x = a")
    case True
    with Cons.prems have "count_list xs a \<noteq> 0" by simp
    then have "a \<in> set xs" by (simp add: count_list_0_iff)
    with True show ?thesis by simp
  next
    case False
    with Cons show ?thesis by simp
  qed
qed

lemma renameID_same: "renameID a b a = b"
  by (simp add: renameID_def)

lemma renameID_other: "x \<noteq> a \<Longrightarrow> renameID a b x = x"
  by (simp add: renameID_def)

lemma renameID_neq: "newID \<noteq> oldID \<Longrightarrow> renameID oldID newID x \<noteq> oldID"
  by (simp add: renameID_def)

lemma map_renameID_absent: "a \<notin> set xs \<Longrightarrow> map (renameID a b) xs = xs"
  by (auto simp: renameID_def intro: map_idI)

lemma reparentFrame_eq:
  assumes "\<And>kids. plannedChildren f = Some kids \<Longrightarrow> oldID \<notin> set kids"
  shows "(reparentFrame now oldID newID f)\<lparr>updatedAt := t\<rparr>
         = (renameLinks oldID newID f)\<lparr>updatedAt := t\<rparr>"
proof -
  have k: "map_option (map (renameID oldID newID)) (plannedChildren f) = plannedChildren f"
    using assms by (cases "plannedChildren f") (simp_all add: map_renameID_absent)
  show ?thesis
    by (cases "parentSessionID f")
       (simp_all add: reparentFrame_def renameLinks_def saveFrame_def renameID_def k)
qed

lemma relinkFrame_eq:
  assumes "\<And>kids. plannedChildren f = Some kids \<Longrightarrow> count_list kids oldID \<le> 1"
  shows "(relinkFrame now oldID newID f)\<lparr>updatedAt := t\<rparr>
         = (renameLinks oldID newID f)\<lparr>updatedAt := t\<rparr>"
proof (cases "plannedChildren f")
  case None
  then have "relinkFrame now oldID newID f = reparentFrame now oldID newID f"
    by (simp add: relinkFrame_comp replanFrame_def reparentFrame_def saveFrame_def)
  moreover have "(reparentFrame now oldID newID f)\<lparr>updatedAt := t\<rparr>
         = (renameLinks oldID newID f)\<lparr>updatedAt := t\<rparr>"
    by (rule reparentFrame_eq) (simp add: None)
  ultimately show ?thesis by simp
next
  case (Some kids)
  with assms have c: "count_list kids oldID \<le> 1" by simp
  show ?thesis
  proof (cases "oldID \<in> set kids")
    case False
    with Some have "relinkFrame now oldID newID f = reparentFrame now oldID newID f"
      by (simp add: relinkFrame_comp replanFrame_def reparentFrame_def saveFrame_def)
    moreover have "(reparentFrame now oldID newID f)\<lparr>updatedAt := t\<rparr>
         = (renameLinks oldID newID f)\<lparr>updatedAt := t\<rparr>"
      by (rule reparentFrame_eq) (use Some False in simp)
    ultimately show ?thesis by simp
  next
    case True
    with Some show ?thesis
      by (cases "parentSessionID f")
         (simp_all add: relinkFrame_def Let_def renameLinks_def saveFrame_def
            replaceFirst_once[OF c] renameID_same renameID_other)
  qed
qed

lemma plannedChildren_relinked:
  "plannedChildren (if b then relinkFrame now oldID newID f else reparentFrame now oldID newID f)
   = (case plannedChildren f of
        None \<Rightarrow> None
      | Some kids \<Rightarrow> if b \<and> oldID \<in> set kids then Some (replaceFirst oldID newID kids)
                     else Some kids)"
  by (auto simp: relinkFrame_def reparentFrame_def saveFrame_def Let_def split: option.splits)

lemma renamed_fields:
  assumes e: "f'\<lparr>updatedAt := u\<rparr> = (renameLinks oldID newID f)\<lparr>updatedAt := u'\<rparr>"
  shows "sessionID f' = sessionID f"
    and "parentSessionID f' = map_option (renameID oldID newID) (parentSessionID f)"
    and "plannedChildren f' = map_option (map (renameID oldID newID)) (plannedChildren f)"
proof -
  have "sessionID (f'\<lparr>updatedAt := u\<rparr>) = sessionID ((renameLinks oldID newID f)\<lparr>updatedAt := u'\<rparr>)"
    by (simp only: e)
  then show "sessionID f' = sessionID f" by (simp add: renameLinks_def)
  have "parentSessionID (f'\<lparr>updatedAt := u\<rparr>)
        = parentSessionID ((renameLinks oldID newID f)\<lparr>updatedAt := u'\<rparr>)"
    by (simp only: e)
  then show "parentSessionID f' = map_option (renameID oldID newID) (parentSessionID f)"
    by (simp add: renameLinks_def)
  have "plannedChildren (f'\<lparr>updatedAt := u\<rparr>)
        = plannedChildren ((renameLinks oldID newID f)\<lparr>updatedAt := u'\<rparr>)"
    by (simp only: e)
  then show "plannedChildren f' = map_option (map (renameID oldID newID)) (plannedChildren f)"
    by (simp add: renameLinks_def)
qed

lemma no_old_link:
  assumes ne: "newID \<noteq> oldID"
    and p: "parentSessionID f' = map_option (renameID oldID newID) (parentSessionID f)"
    and c: "plannedChildren f' = map_option (map (renameID oldID newID)) (plannedChildren f)"
  shows "parentSessionID f' \<noteq> Some oldID"
    and "(case plannedChildren f' of None \<Rightarrow> False | Some kids \<Rightarrow> oldID \<in> set kids) = False"
proof -
  show "parentSessionID f' \<noteq> Some oldID"
    using ne p by (cases "parentSessionID f") (auto simp: renameID_def)
  show "(case plannedChildren f' of None \<Rightarrow> False | Some kids \<Rightarrow> oldID \<in> set kids) = False"
    using ne c by (cases "plannedChildren f") (auto simp: renameID_def)
qed


subsection \<open>The frames after the replacement\<close>

lemma listedByParentOnce_entry:
  assumes "listedByParentOnce state oldID newID frame"
    and "getFrame state k = Some f" and "k \<noteq> newID"
    and "plannedChildren f = Some kids" and "oldID \<in> set kids"
  shows "count_list kids oldID \<le> 1"
    and "parentKeyAfter oldID newID frame = Some (renameID oldID newID k)"
proof -
  from assms(2) have "(k, f) \<in> set (frames state)"
    by (simp add: getFrame_def map_of_SomeD)
  with assms(1,3,4,5)
  have "count_list kids oldID \<le> 1
        \<and> parentKeyAfter oldID newID frame = Some (renameID oldID newID k)"
    by (auto simp: listedByParentOnce_def list_all_iff)
  then show "count_list kids oldID \<le> 1"
    and "parentKeyAfter oldID newID frame = Some (renameID oldID newID k)"
    by simp_all
qed

lemma relinked_eq:
  assumes lp: "listedByParentOnce state oldID newID frame"
    and g: "getFrame state k = Some f" and kn: "k \<noteq> newID"
  shows "(if parentKeyAfter oldID newID frame = Some (renameID oldID newID k)
          then relinkFrame now oldID newID f
          else reparentFrame now oldID newID f)\<lparr>updatedAt := t\<rparr>
         = (renameLinks oldID newID f)\<lparr>updatedAt := t\<rparr>"
proof (cases "parentKeyAfter oldID newID frame = Some (renameID oldID newID k)")
  case True
  have "(relinkFrame now oldID newID f)\<lparr>updatedAt := t\<rparr>
         = (renameLinks oldID newID f)\<lparr>updatedAt := t\<rparr>"
  proof (rule relinkFrame_eq)
    fix kids assume ks: "plannedChildren f = Some kids"
    show "count_list kids oldID \<le> 1"
    proof (cases "oldID \<in> set kids")
      case True
      from listedByParentOnce_entry(1)[OF lp g kn ks True] show ?thesis .
    next
      case False
      then show ?thesis by (simp add: count_list_0_iff)
    qed
  qed
  with True show ?thesis by simp
next
  case False
  have "(reparentFrame now oldID newID f)\<lparr>updatedAt := t\<rparr>
         = (renameLinks oldID newID f)\<lparr>updatedAt := t\<rparr>"
  proof (rule reparentFrame_eq)
    fix kids assume ks: "plannedChildren f = Some kids"
    show "oldID \<notin> set kids"
    proof
      assume "oldID \<in> set kids"
      from listedByParentOnce_entry(2)[OF lp g kn ks this] False show False by simp
    qed
  qed
  with False show ?thesis by simp
qed

lemma replaceFrameID_renamed:
  assumes fr: "getFrame state oldID = Some frame" and ne: "newID \<noteq> oldID"
    and lp: "listedByParentOnce state oldID newID frame"
  shows "getFrame (replaceFrameID state now oldID newID) newID
         = Some ((renameLinks oldID newID frame)\<lparr>sessionID := newID, updatedAt := now\<rparr>)"
proof -
  let ?frame1 = "frame\<lparr>sessionID := newID, updatedAt := now\<rparr>"
  let ?g = "if parentKeyAfter oldID newID frame = Some newID
            then relinkFrame now oldID newID frame
            else reparentFrame now oldID newID frame"
  let ?g1 = "if parentKeyAfter oldID newID frame = Some newID
            then relinkFrame now oldID newID ?frame1
            else reparentFrame now oldID newID ?frame1"
  from relinked_eq[OF lp fr ne[symmetric], where now = now and t = now]
  have e: "?g\<lparr>updatedAt := now\<rparr> = (renameLinks oldID newID frame)\<lparr>updatedAt := now\<rparr>"
    by (simp add: renameID_same)
  have "saveFrame now ?g1 = ?g\<lparr>sessionID := newID, updatedAt := now\<rparr>"
    by (auto simp: relinkFrame_def reparentFrame_def saveFrame_def Let_def split: option.splits)
  also have "\<dots> = (?g\<lparr>updatedAt := now\<rparr>)\<lparr>sessionID := newID\<rparr>" by simp
  also have "\<dots> = (renameLinks oldID newID frame)\<lparr>sessionID := newID, updatedAt := now\<rparr>"
    by (simp only: e) simp
  finally have "saveFrame now ?g1
      = (renameLinks oldID newID frame)\<lparr>sessionID := newID, updatedAt := now\<rparr>" .
  with ne show ?thesis
    by (simp add: replaceFrameID_lookup[OF fr ne] Let_def)
qed

lemma replaceFrameID_other:
  assumes fr: "getFrame state oldID = Some frame" and ne: "newID \<noteq> oldID"
    and lp: "listedByParentOnce state oldID newID frame"
    and k: "k \<noteq> oldID" "k \<noteq> newID" and g: "getFrame state k = Some f"
  shows "\<exists>f'. getFrame (replaceFrameID state now oldID newID) k = Some f'
              \<and> f'\<lparr>updatedAt := updatedAt f\<rparr> = renameLinks oldID newID f"
proof -
  let ?g = "if parentKeyAfter oldID newID frame = Some k
            then relinkFrame now oldID newID f
            else reparentFrame now oldID newID f"
  from relinked_eq[OF lp g k(2), where now = now and t = "updatedAt f"] k(1)
  have "?g\<lparr>updatedAt := updatedAt f\<rparr> = (renameLinks oldID newID f)\<lparr>updatedAt := updatedAt f\<rparr>"
    by (simp add: renameID_other)
  also have "\<dots> = renameLinks oldID newID f"
    by (simp add: renameLinks_def)
  finally have "?g\<lparr>updatedAt := updatedAt f\<rparr> = renameLinks oldID newID f" .
  moreover have "getFrame (replaceFrameID state now oldID newID) k = Some ?g"
    using k g by (simp add: replaceFrameID_lookup[OF fr ne] Let_def)
  ultimately show ?thesis by blast
qed


subsection \<open>When a reference to the old id remains\<close>

text \<open>
  \<open>indexOf\<close> finds the first occurrence only, and only the planned children of the parent
  are looked at.  So a reference to the old id remains whenever \<open>rootFrameIDs\<close> names the old
  id twice, or a \<open>plannedChildren\<close> list names it twice, or a frame other than the parent
  lists it.
\<close>

lemma replaceFrameID_stale_reference:
  assumes kc: "keysConsistent (frames state)"
    and fr: "getFrame state oldID = Some frame" and ne: "newID \<noteq> oldID"
    and bad: "\<not> (count_list (rootFrameIDs state) oldID \<le> 1
                \<and> listedByParentOnce state oldID newID frame)"
  shows "refersTo (replaceFrameID state now oldID newID) oldID"
proof (cases "count_list (rootFrameIDs state) oldID \<le> 1")
  case False
  then have "2 \<le> count_list (rootFrameIDs state) oldID" by simp
  then have "oldID \<in> set (replaceFirst oldID newID (rootFrameIDs state))"
    by (rule replaceFirst_twice)
  then show ?thesis by (simp add: refersTo_def replaceFrameID_roots[OF fr])
next
  case True
  let ?st = "replaceFrameID state now oldID newID"
  from True bad have "\<not> listedByParentOnce state oldID newID frame" by simp
  then obtain k f kids where mem: "(k, f) \<in> set (frames state)" and kn: "k \<noteq> newID"
    and ks: "plannedChildren f = Some kids" and old: "oldID \<in> set kids"
    and why: "\<not> (count_list kids oldID \<le> 1
                \<and> parentKeyAfter oldID newID frame = Some (renameID oldID newID k))"
    by (auto simp: listedByParentOnce_def list_all_iff split: option.splits)
  from kc have d: "distinct (map fst (frames state))" by (simp add: keysConsistent_def)
  with mem have g: "getFrame state k = Some f" by (simp add: getFrame_def)
  let ?k' = "renameID oldID newID k"
  let ?b = "parentKeyAfter oldID newID frame = Some ?k'"
  let ?pre = "if k = oldID then frame\<lparr>sessionID := newID, updatedAt := now\<rparr> else f"
  let ?g = "if ?b then relinkFrame now oldID newID ?pre else reparentFrame now oldID newID ?pre"
  let ?f' = "if ?k' = newID then saveFrame now ?g else ?g"
  have k'old: "?k' \<noteq> oldID" using ne by (rule renameID_neq)
  have pre: "plannedChildren ?pre = Some kids"
    using ks g fr by auto
  have look: "getFrame ?st ?k' = Some ?f'"
  proof (cases "k = oldID")
    case True
    then show ?thesis
      using ne by (simp add: replaceFrameID_lookup[OF fr ne] Let_def renameID_same)
  next
    case False
    then show ?thesis
      using kn g by (simp add: replaceFrameID_lookup[OF fr ne] Let_def renameID_other)
  qed
  have "plannedChildren ?f' = plannedChildren ?g"
    by (simp add: saveFrame_def)
  also have "\<dots> = (if ?b \<and> oldID \<in> set kids then Some (replaceFirst oldID newID kids)
                     else Some kids)"
    by (simp only: plannedChildren_relinked pre option.case)
  finally have pc: "plannedChildren ?f' = (if ?b then Some (replaceFirst oldID newID kids)
                     else Some kids)"
    using old by simp
  have "\<exists>kids'. plannedChildren ?f' = Some kids' \<and> oldID \<in> set kids'"
  proof (cases ?b)
    case True
    with why have "2 \<le> count_list kids oldID" by simp
    then have "oldID \<in> set (replaceFirst oldID newID kids)" by (rule replaceFirst_twice)
    with True pc show ?thesis by simp
  next
    case False
    with pc old show ?thesis by simp
  qed
  then obtain kids' where k1: "plannedChildren ?f' = Some kids'" and k2: "oldID \<in> set kids'"
    by blast
  from look have "(?k', ?f') \<in> set (frames ?st)"
    by (simp add: getFrame_def map_of_SomeD)
  with k1 k2 show ?thesis
    unfolding refersTo_def list_ex_iff by (intro disjI1 bexI[of _ "(?k', ?f')"]) simp_all
qed

subsection \<open>No reference to the old id remains\<close>

text \<open>
  C5, as stated, fails in two ways.  \<open>replaceFrameID\<close> stamps the frame
  (\<open>frame.updatedAt = Date.now()\<close>), so the frame's own fields are not otherwise unchanged; and
  it replaces only the first occurrence of the old id in \<open>rootFrameIDs\<close> (and in the parent's
  \<open>plannedChildren\<close>), so in an aggregate that lists the id twice a reference remains.
\<close>

theorem replaceFrameID_leaves_duplicate_and_stamps:
  "getFrame exDupRootState ''A'' = Some exFrameA
   \<and> updatedAt exFrameA = 1000
   \<and> replaceFrameID exDupRootState 2000 ''A'' ''B''
       = exDupRootState\<lparr>frames := [(''B'', exFrameA\<lparr>sessionID := ''B'', updatedAt := 2000\<rparr>)],
                         activeFrameID := Some ''B'', rootFrameIDs := [''B'', ''A''],
                         stateUpdatedAt := 2000\<rparr>
   \<and> refersTo (replaceFrameID exDupRootState 2000 ''A'' ''B'') ''A''"
proof -
  have r: "replaceFrameID exDupRootState 2000 ''A'' ''B''
       = exDupRootState\<lparr>frames := [(''B'', exFrameA\<lparr>sessionID := ''B'', updatedAt := 2000\<rparr>)],
                         activeFrameID := Some ''B'', rootFrameIDs := [''B'', ''A''],
                         stateUpdatedAt := 2000\<rparr>"
    by (simp add: getFrame_def replaceFrameID_def ex5_defs Let_def saveFrame_def saveState_def
        reparentChildren_def replaceInParent_def truthy_def)
  have g: "getFrame exDupRootState ''A'' = Some exFrameA \<and> updatedAt exFrameA = 1000"
    by (simp add: getFrame_def ex5_defs)
  have "refersTo (replaceFrameID exDupRootState 2000 ''A'' ''B'') ''A''"
    unfolding r by (simp add: refersTo_def)
  with r g show ?thesis by simp
qed

text \<open>
  C5 (amended): let every frame be stored under its own id, let the old id occur at most
  once in \<open>rootFrameIDs\<close>, and let it be listed as a planned child by the parent of the frame
  only, and once.  Then after replacing the id of an existing frame by another id, whether
  that id is in use or not, nothing refers to the old id: it is no key of the frames map, no
  frame has it as \<open>sessionID\<close> or \<open>parentSessionID\<close> or in \<open>plannedChildren\<close>, it is not in
  \<open>rootFrameIDs\<close> and it is not the active frame.  Every parent link, planned-children entry,
  root entry and the active-frame pointer that held the old id holds the new one, and holds
  what it held otherwise.  The renamed frame keeps all its fields except \<open>sessionID\<close> and
  \<open>updatedAt\<close>, which is set to the time of the call (and its links, should they name the
  frame itself); the other frames keep all fields except the renamed links and \<open>updatedAt\<close>.
  By \<open>replaceFrameID_stale_reference\<close> the two conditions on the old id are also necessary.
\<close>

theorem replaceFrameID_renames_references:
  assumes kc: "keysConsistent (frames state)"
    and fr: "getFrame state oldID = Some frame"
    and ne: "newID \<noteq> oldID"
    and roots: "count_list (rootFrameIDs state) oldID \<le> 1"
    and lp: "listedByParentOnce state oldID newID frame"
  shows "\<not> refersTo (replaceFrameID state now oldID newID) oldID
    \<and> getFrame (replaceFrameID state now oldID newID) newID
        = Some ((renameLinks oldID newID frame)\<lparr>sessionID := newID, updatedAt := now\<rparr>)
    \<and> (\<forall>k f. k \<noteq> oldID \<and> k \<noteq> newID \<and> getFrame state k = Some f \<longrightarrow>
          (\<exists>f'. getFrame (replaceFrameID state now oldID newID) k = Some f'
             \<and> f'\<lparr>updatedAt := updatedAt f\<rparr> = renameLinks oldID newID f))
    \<and> rootFrameIDs (replaceFrameID state now oldID newID)
        = map (renameID oldID newID) (rootFrameIDs state)
    \<and> activeFrameID (replaceFrameID state now oldID newID)
        = map_option (renameID oldID newID) (activeFrameID state)"
proof -
  let ?st = "replaceFrameID state now oldID newID"
  let ?new = "(renameLinks oldID newID frame)\<lparr>sessionID := newID, updatedAt := now\<rparr>"
  have c2: "getFrame ?st newID = Some ?new"
    using fr ne lp by (rule replaceFrameID_renamed)
  have c3: "\<exists>f'. getFrame ?st k = Some f'
             \<and> f'\<lparr>updatedAt := updatedAt f\<rparr> = renameLinks oldID newID f"
    if "k \<noteq> oldID \<and> k \<noteq> newID \<and> getFrame state k = Some f" for k f
  proof -
    from that have k: "k \<noteq> oldID" "k \<noteq> newID" and g: "getFrame state k = Some f"
      by simp_all
    from fr ne lp k g show ?thesis by (rule replaceFrameID_other)
  qed
  have c4: "rootFrameIDs ?st = map (renameID oldID newID) (rootFrameIDs state)"
    by (simp only: replaceFrameID_roots[OF fr] replaceFirst_once[OF roots])
  have c5: "activeFrameID ?st = map_option (renameID oldID newID) (activeFrameID state)"
    using fr by (rule replaceFrameID_active)
  have entry: "k \<noteq> oldID \<and> sessionID f' \<noteq> oldID \<and> parentSessionID f' \<noteq> Some oldID
      \<and> (case plannedChildren f' of None \<Rightarrow> False | Some kids \<Rightarrow> oldID \<in> set kids) = False"
    if kf: "(k, f') \<in> set (frames ?st)" for k f'
  proof -
    from kc have "distinct (map fst (frames state))" by (simp add: keysConsistent_def)
    then have "distinct (map fst (frames ?st))" by (rule replaceFrameID_distinct)
    with kf have g: "getFrame ?st k = Some f'" by (simp add: getFrame_def)
    then have k: "k \<noteq> oldID" by (auto simp add: replaceFrameID_lookup[OF fr ne])
    show ?thesis
    proof (cases "k = newID")
      case True
      with g c2 have f': "f' = ?new" by simp
      have "?new\<lparr>updatedAt := now\<rparr>
            = (renameLinks oldID newID (frame\<lparr>sessionID := newID\<rparr>))\<lparr>updatedAt := now\<rparr>"
        by (simp add: renameLinks_def)
      note rf = renamed_fields[OF this]
      have p: "parentSessionID f' = map_option (renameID oldID newID) (parentSessionID frame)"
        using rf(2) by (simp add: f')
      have c: "plannedChildren f'
               = map_option (map (renameID oldID newID)) (plannedChildren frame)"
        using rf(3) by (simp add: f')
      have s: "sessionID f' = newID" by (simp add: f')
      from no_old_link[OF ne p c] s k ne show ?thesis by simp
    next
      case False
      with g k obtain f0 where f0: "getFrame state k = Some f0"
        by (auto simp add: replaceFrameID_lookup[OF fr ne] split: if_splits)
      from kc f0 have s0: "sessionID f0 = k"
        by (auto simp: keysConsistent_def getFrame_def list_all_iff dest!: map_of_SomeD)
      from c3[of k f0] k False f0 g
      have "f'\<lparr>updatedAt := updatedAt f0\<rparr> = renameLinks oldID newID f0" by auto
      then have "f'\<lparr>updatedAt := updatedAt f0\<rparr>
                 = (renameLinks oldID newID f0)\<lparr>updatedAt := updatedAt f0\<rparr>"
        by (simp add: renameLinks_def)
      note rf = renamed_fields[OF this]
      from no_old_link[OF ne rf(2) rf(3)] rf(1) s0 k show ?thesis by simp
    qed
  qed
  have c1: "\<not> refersTo ?st oldID"
  proof
    assume "refersTo ?st oldID"
    then consider (e) k f' where "(k, f') \<in> set (frames ?st)"
        "k = oldID \<or> sessionID f' = oldID \<or> parentSessionID f' = Some oldID
         \<or> (case plannedChildren f' of None \<Rightarrow> False | Some kids \<Rightarrow> oldID \<in> set kids)"
      | (r) "oldID \<in> set (rootFrameIDs ?st)"
      | (a) "activeFrameID ?st = Some oldID"
      by (auto simp: refersTo_def list_ex_iff)
    then show False
    proof cases
      case e
      with entry[OF e(1)] show False by blast
    next
      case r
      with ne show False by (auto simp: c4 renameID_def split: if_splits)
    next
      case a
      with ne show False
        by (cases "activeFrameID state") (auto simp: c5 renameID_def split: if_splits)
    qed
  qed
  from c1 c2 c3 c4 c5 show ?thesis by blast
qed

text \<open>
  Activating the planned frame \<open>plan-1\<close> of the example under the session id \<open>ses_1\<close>, which
  is in use: the frame stored under \<open>ses_1\<close> is replaced, and the root list keeps both of its
  entries for \<open>ses_1\<close>.
\<close>

theorem replaceFrameID_renames_references_witness:
  "keysConsistent (frames exHookedPlanState)
   \<and> getFrame exHookedPlanState ''plan-1'' = Some exPlan1
   \<and> getFrame exHookedPlanState ''ses_1'' = Some exHookFrame
   \<and> count_list (rootFrameIDs exHookedPlanState) ''plan-1'' \<le> 1
   \<and> listedByParentOnce exHookedPlanState ''plan-1'' ''ses_1'' exPlan1
   \<and> \<not> refersTo (replaceFrameID exHookedPlanState 2000 ''plan-1'' ''ses_1'') ''plan-1''
   \<and> getFrame (replaceFrameID exHookedPlanState 2000 ''plan-1'' ''ses_1'') ''ses_1''
       = Some (exPlan1\<lparr>sessionID := ''ses_1'', updatedAt := 2000\<rparr>)
   \<and> map (\<lambda>(k, f). (k, parentSessionID f, plannedChildren f))
         (frames (replaceFrameID exHookedPlanState 2000 ''plan-1'' ''ses_1''))
       = [(''R'', None, Some [''ses_1'', ''plan-2'']),
          (''plan-2'', Some ''R'', Some []),
          (''plan-3'', Some ''ses_1'', Some []),
          (''ses_1'', Some ''R'', Some [''plan-3''])]
   \<and> rootFrameIDs (replaceFrameID exHookedPlanState 2000 ''plan-1'' ''ses_1'')
       = [''R'', ''ses_1'', ''ses_1'']
   \<and> activeFrameID (replaceFrameID exHookedPlanState 2000 ''plan-1'' ''ses_1'') = Some ''ses_1''"
proof -
  have kc: "keysConsistent (frames exHookedPlanState)"
    by code_simp
  have fr: "getFrame exHookedPlanState ''plan-1'' = Some exPlan1"
    by (simp add: getFrame_def exHookedPlanState_def)
  have used: "getFrame exHookedPlanState ''ses_1'' = Some exHookFrame"
    by (simp add: getFrame_def exHookedPlanState_def)
  have ne: "''ses_1'' \<noteq> ''plan-1''" by simp
  have roots: "count_list (rootFrameIDs exHookedPlanState) ''plan-1'' \<le> 1"
    by (simp add: exHookedPlanState_def)
  have lp: "listedByParentOnce exHookedPlanState ''plan-1'' ''ses_1'' exPlan1"
    by code_simp
  have rl: "renameLinks ''plan-1'' ''ses_1'' exPlan1 = exPlan1"
    by (simp add: renameLinks_def renameID_def exPlan1_def newFrame_def)
  have ev: "map (\<lambda>(k, f). (k, parentSessionID f, plannedChildren f))
         (frames (replaceFrameID exHookedPlanState 2000 ''plan-1'' ''ses_1''))
       = [(''R'', None, Some [''ses_1'', ''plan-2'']),
          (''plan-2'', Some ''R'', Some []),
          (''plan-3'', Some ''ses_1'', Some []),
          (''ses_1'', Some ''R'', Some [''plan-3''])]"
    by code_simp
  have rs: "map (renameID ''plan-1'' ''ses_1'') (rootFrameIDs exHookedPlanState)
            = [''R'', ''ses_1'', ''ses_1'']"
    by (simp add: renameID_def exHookedPlanState_def)
  have ac: "map_option (renameID ''plan-1'' ''ses_1'') (activeFrameID exHookedPlanState)
            = Some ''ses_1''"
    by (simp add: renameID_def exHookedPlanState_def)
  from replaceFrameID_renames_references[OF kc fr ne roots lp, of 2000]
    kc fr used roots lp ev rl rs ac
  show ?thesis by simp
qed

section \<open>Ancestor selection within the budget\<close>

subsection \<open>The sort and the selection loop\<close>

lemma mset_insertBy: "mset (insertBy le x xs) = add_mset x (mset xs)"
  by (induction xs) auto

lemma mset_jsSort: "mset (jsSort le xs) = mset xs"
  unfolding jsSort_def by (induction xs) (auto simp: mset_insertBy)

lemma set_jsSort: "set (jsSort le xs) = set xs"
  by (metis mset_jsSort set_mset_mset)

lemma sum_list_jsSort: "sum_list (map f (jsSort le xs)) = sum_list (map (f :: 'a \<Rightarrow> int) xs)"
proof -
  have "mset (map f (jsSort le xs)) = mset (map f xs)"
    by (simp add: mset_jsSort)
  then show ?thesis by (metis sum_mset_sum_list)
qed

lemma insertBy_least: "(\<And>y. le x y) \<Longrightarrow> insertBy le x xs = x # xs"
  by (cases xs) auto

lemma selectStep_fold:
  assumes "foldl (selectStep budget) (sel, used, tr) items = (sel', used', tr')"
    and "used = sum_list (map estimatedTokens sel)" and "used \<le> budget"
  shows "used' = sum_list (map estimatedTokens sel') \<and> used' \<le> budget
         \<and> set sel \<subseteq> set sel' \<and> set sel' \<subseteq> set sel \<union> set items
         \<and> length sel' + tr' = length sel + tr + length items"
  using assms
proof (induction items arbitrary: sel used tr)
  case Nil
  then show ?case by auto
next
  case (Cons item items)
  have step: "selectStep budget (sel, used, tr) item =
                (if used + estimatedTokens item \<le> budget
                 then (sel @ [item], used + estimatedTokens item, tr)
                 else (sel, used, tr + 1))"
    by (simp add: selectStep_def)
  show ?case
  proof (cases "used + estimatedTokens item \<le> budget")
    case True
    with Cons.prems(1) have
      "foldl (selectStep budget) (sel @ [item], used + estimatedTokens item, tr) items = (sel', used', tr')"
      by (simp add: step)
    from Cons.IH[OF this] Cons.prems(2) True show ?thesis by auto
  next
    case False
    with Cons.prems(1) have
      "foldl (selectStep budget) (sel, used, tr + 1) items = (sel', used', tr')"
      by (simp add: step)
    from Cons.IH[OF this Cons.prems(2) Cons.prems(3)] show ?thesis by auto
  qed
qed


lemma scoreAll_tokens:
  "item \<in> set (scoreAll now ancestors cur) \<Longrightarrow>
   estimatedTokens item = ancestorTokens_of (ancestor item) \<and> ancestor item \<in> set ancestors"
  by (auto simp: scoreAll_def ancestorTokens_of_def in_set_enumerate_eq)

lemma scoreAll_Cons:
  "\<exists>item items. scoreAll now (parent # rest) cur = item # items
     \<and> ancestor item = parent \<and> depth item = 0
     \<and> estimatedTokens item = ancestorTokens_of parent"
  by (simp add: scoreAll_def ancestorTokens_of_def)



lemma length_jsSort: "length (jsSort le xs) = length xs"
  by (metis mset_jsSort size_mset)

lemma length_scoreAll: "length (scoreAll now ancestors cur) = length ancestors"
  by (simp add: scoreAll_def)

lemma scoreAll_nonneg: "item \<in> set (scoreAll now ancestors cur) \<Longrightarrow> 0 \<le> estimatedTokens item"
  by (auto simp: scoreAll_def estimateTokens_def in_set_enumerate_eq)

lemma selectStep_fold_negative:
  assumes "\<not> 0 \<le> budget" and "\<forall>i\<in>set items. 0 \<le> estimatedTokens i"
  shows "foldl (selectStep budget) ([], 0, tr) items = ([], 0, tr + length items)"
  using assms(2)
proof (induction items arbitrary: tr)
  case Nil
  then show ?case by simp
next
  case (Cons item items)
  from Cons.prems assms(1) have "selectStep budget ([], 0, tr) item = ([], 0, tr + 1)"
    by (simp add: selectStep_def)
  with Cons show ?case by simp
qed


lemma selectAncestors_unfold:
  assumes "ancestors \<noteq> []"
    and "foldl (selectStep budget) ([], 0, 0)
           (jsSort (\<lambda>a b. ancestorCompare a b \<le> 0) (scoreAll now ancestors cur))
         = (chosen, used, truncated)"
  shows "selectAncestors now ancestors budget cur
         = \<lparr>selected = map ancestor (jsSort (\<lambda>a b. int (depth b) - int (depth a) \<le> 0) chosen),
            truncatedCount = truncated, tokensUsed = used\<rparr>"
  using assms by (simp add: selectAncestors_def Let_def)

lemma selection_facts:
  assumes fold: "foldl (selectStep budget) ([], 0, 0)
           (jsSort (\<lambda>a b. ancestorCompare a b \<le> 0) (scoreAll now ancestors cur))
         = (chosen, used, truncated)"
  shows "set chosen \<subseteq> set (scoreAll now ancestors cur)
    \<and> length chosen + truncated = length ancestors
    \<and> used = sum_list (map estimatedTokens chosen)
    \<and> (0 \<le> budget \<longrightarrow> used \<le> budget)"
proof (cases "0 \<le> budget")
  case True
  have z: "(0::int) = sum_list (map estimatedTokens ([] :: ScoredAncestor list))" by simp
  from selectStep_fold[OF fold z True] show ?thesis
    by (simp add: set_jsSort length_jsSort length_scoreAll)
next
  case False
  let ?sorted = "jsSort (\<lambda>a b. ancestorCompare a b \<le> 0) (scoreAll now ancestors cur)"
  have "\<forall>i\<in>set ?sorted. 0 \<le> estimatedTokens i"
    by (simp add: set_jsSort scoreAll_nonneg)
  from selectStep_fold_negative[OF False this, of 0] fold
  have "chosen = []" "used = 0" "truncated = length ?sorted" by simp_all
  with False show ?thesis by (simp add: length_jsSort length_scoreAll)
qed

lemma tokens_of_items:
  "set xs \<subseteq> set (scoreAll now ancestors cur) \<Longrightarrow>
   map ancestorTokens_of (map ancestor xs) = map estimatedTokens xs"
proof (induction xs)
  case Nil
  then show ?case by simp
next
  case (Cons x xs)
  then have "estimatedTokens x = ancestorTokens_of (ancestor x)"
    using scoreAll_tokens[of x now ancestors cur] by simp
  with Cons show ?case by simp
qed

subsection \<open>What the loop keeps on every chain\<close>

text \<open>
  For every chain and every budget \<open>B \<ge> 0\<close> the estimated tokens of the selected ancestors
  sum to at most \<open>B\<close>, and the sum is the reported \<open>tokensUsed\<close>; the selected ancestors are
  among the given ones and the others are counted in \<open>truncatedCount\<close>.  The parent is the
  first candidate of the loop, so it is selected when its own estimated tokens are at most
  \<open>B\<close>: the loop can lose the parent only when the parent alone is larger than the budget.
\<close>

lemma selectAncestors_accounting:
  "(0 \<le> budget \<longrightarrow>
      sum_list (map ancestorTokens_of (selected (selectAncestors now ancestors budget cur)))
        \<le> budget)
   \<and> tokensUsed (selectAncestors now ancestors budget cur)
       = sum_list (map ancestorTokens_of (selected (selectAncestors now ancestors budget cur)))
   \<and> set (selected (selectAncestors now ancestors budget cur)) \<subseteq> set ancestors
   \<and> length (selected (selectAncestors now ancestors budget cur))
       + truncatedCount (selectAncestors now ancestors budget cur) = length ancestors
   \<and> (\<forall>parent rest. ancestors = parent # rest \<and> ancestorTokens_of parent \<le> budget
        \<longrightarrow> parent \<in> set (selected (selectAncestors now ancestors budget cur)))"
proof (cases "ancestors = []")
  case True
  then show ?thesis by (simp add: selectAncestors_def)
next
  case False
  let ?scored = "scoreAll now ancestors cur"
  let ?sorted = "jsSort (\<lambda>a b. ancestorCompare a b \<le> 0) ?scored"
  obtain chosen used truncated where
    fold: "foldl (selectStep budget) ([], 0, 0) ?sorted = (chosen, used, truncated)"
    using prod_cases3 by blast
  let ?final = "jsSort (\<lambda>a b. int (depth b) - int (depth a) \<le> 0) chosen"
  note sel = selectAncestors_unfold[OF False fold]
  from selection_facts[OF fold] have
    facts: "set chosen \<subseteq> set ?scored" "length chosen + truncated = length ancestors"
      "used = sum_list (map estimatedTokens chosen)" "0 \<le> budget \<longrightarrow> used \<le> budget"
    by blast+
  have fin_sub: "set ?final \<subseteq> set ?scored" using facts(1) by (simp add: set_jsSort)
  have sum_eq: "sum_list (map ancestorTokens_of (map ancestor ?final)) = used"
    by (simp only: tokens_of_items[OF fin_sub] sum_list_jsSort facts(3))
  have sel1: "selected (selectAncestors now ancestors budget cur) = map ancestor ?final"
    by (simp add: sel)
  have c1: "0 \<le> budget \<longrightarrow>
      sum_list (map ancestorTokens_of (selected (selectAncestors now ancestors budget cur))) \<le> budget"
    using facts(4) by (simp only: sel1 sum_eq)
  have c2: "tokensUsed (selectAncestors now ancestors budget cur)
       = sum_list (map ancestorTokens_of (selected (selectAncestors now ancestors budget cur)))"
    unfolding sel1 sum_eq by (simp add: sel)
  have c3: "set (selected (selectAncestors now ancestors budget cur)) \<subseteq> set ancestors"
  proof
    fix a assume "a \<in> set (selected (selectAncestors now ancestors budget cur))"
    then obtain item where "item \<in> set ?final" and a: "a = ancestor item"
      by (auto simp: sel1)
    with fin_sub have "item \<in> set ?scored" by blast
    from scoreAll_tokens[OF this] a show "a \<in> set ancestors" by simp
  qed
  have c4: "length (selected (selectAncestors now ancestors budget cur))
       + truncatedCount (selectAncestors now ancestors budget cur) = length ancestors"
    using facts(2) by (simp add: sel length_jsSort)
  have c5: "parent \<in> set (selected (selectAncestors now ancestors budget cur))"
    if "ancestors = parent # rest \<and> ancestorTokens_of parent \<le> budget" for parent rest
  proof -
    from that have a: "ancestors = parent # rest" and fit: "ancestorTokens_of parent \<le> budget"
      by simp_all
    from scoreAll_Cons[of now parent rest cur] a obtain item items where
      sc: "?scored = item # items" and anc: "ancestor item = parent" and d0: "depth item = 0"
      and est: "estimatedTokens item = ancestorTokens_of parent"
      by auto
    have "?sorted = insertBy (\<lambda>a b. ancestorCompare a b \<le> 0) item
                      (jsSort (\<lambda>a b. ancestorCompare a b \<le> 0) items)"
      by (simp add: sc jsSort_def)
    also have "\<dots> = item # jsSort (\<lambda>a b. ancestorCompare a b \<le> 0) items"
      by (rule insertBy_least) (simp add: ancestorCompare_def d0)
    finally have srt: "?sorted = item # jsSort (\<lambda>a b. ancestorCompare a b \<le> 0) items" .
    have step: "selectStep budget ([], 0, 0) item = ([item], estimatedTokens item, 0)"
      using fit est by (simp add: selectStep_def)
    have f2: "foldl (selectStep budget) ([item], estimatedTokens item, 0)
             (jsSort (\<lambda>a b. ancestorCompare a b \<le> 0) items) = (chosen, used, truncated)"
      using fold by (simp add: srt step)
    have "estimatedTokens item = sum_list (map estimatedTokens [item])" by simp
    from selectStep_fold[OF f2 this] fit est have "item \<in> set chosen" by simp
    then have "item \<in> set ?final" by (simp add: set_jsSort)
    with anc show ?thesis by (auto simp add: sel1)
  qed
  from c1 c2 c3 c4 c5 show ?thesis by blast
qed

text \<open>The chain of the example with the default budget of the ancestors, 1500.\<close>

lemma selectAncestors_accounting_example:
  "selectAncestors 3600000 [exParent, exGrandparent, exOldest] 1500 None
       = \<lparr>selected = [exOldest, exGrandparent, exParent], truncatedCount = 0, tokensUsed = 19\<rparr>
   \<and> sum_list (map ancestorTokens_of [exOldest, exGrandparent, exParent]) \<le> 1500
   \<and> ancestorTokens_of exParent \<le> 1500
   \<and> exParent \<in> set (selected (selectAncestors 3600000 [exParent, exGrandparent, exOldest] 1500 None))"
proof -
  have a: "ancestorTokens_of exParent \<le> 1500"
    by code_simp
  have b: "selectAncestors 3600000 [exParent, exGrandparent, exOldest] 1500 None
       = \<lparr>selected = [exOldest, exGrandparent, exParent], truncatedCount = 0, tokensUsed = 19\<rparr>"
    by code_simp
  from selectAncestors_accounting
         [of 1500 3600000 "[exParent, exGrandparent, exOldest]" None] a b
  show ?thesis by simp
qed

subsection \<open>Budget and parent\<close>

text \<open>
  C4: the selection keeps within the budget of the ancestors and always has the immediate
  parent among the selected, whatever the parent's score or size.  The documentation of
  \<open>selectAncestors\<close> says the same (\<open>Always includes immediate parent if it exists\<close>), and
  the sort puts the parent first under the comment \<open>Parent always first\<close>.  The loop,
  however, applies the test \<open>tokensUsed + estimatedTokens <= budget\<close> to the parent as to
  every other candidate.  With the budget 7 (\<open>STACK_TOKEN_BUDGET_ANCESTORS=7\<close>) the parent
  \<open>P\<close> of the example, of 8 estimated tokens, is left out and counted as truncated, while the
  grandparent \<open>G\<close>, of 6 tokens, is selected.
\<close>

theorem selectAncestors_drops_large_parent:
  "ancestorTokens_of exParent = 8
   \<and> selectAncestors 3600000 [exParent, exGrandparent] 7 None
       = \<lparr>selected = [exGrandparent], truncatedCount = 1, tokensUsed = 6\<rparr>
   \<and> exParent \<notin> set [exGrandparent]"
proof -
  have a: "ancestorTokens_of exParent = 8"
    by code_simp
  have b: "selectAncestors 3600000 [exParent, exGrandparent] 7 None
       = \<lparr>selected = [exGrandparent], truncatedCount = 1, tokensUsed = 6\<rparr>"
    by code_simp
  have c: "exParent \<notin> set [exGrandparent]"
    by (simp add: ex4_defs)
  from a b c show ?thesis by blast
qed

section \<open>The push recommendation\<close>

subsection \<open>The sum and the loop for the primary reason\<close>

lemma foldl_plus: "foldl (+) (a::int) xs = a + sum_list xs"
  by (induction xs arbitrary: a) auto

lemma reasonStep_eq:
  "reasonStep (m, r) e = (if snd e > m then (snd e, displayName (fst e)) else (m, r))"
  by (simp add: reasonStep_def displayName_def)

lemma reason_fold:
  "foldl reasonStep (m, r) es = (m', r') \<Longrightarrow>
     (if \<forall>e\<in>set es. snd e \<le> m then m' = m \<and> r' = r
      else \<exists>pre e post. es = pre @ e # post \<and> m < snd e
             \<and> (\<forall>x\<in>set pre. snd x < snd e) \<and> (\<forall>x\<in>set post. snd x \<le> snd e)
             \<and> m' = snd e \<and> r' = displayName (fst e))"
proof (induction es arbitrary: m r)
  case Nil
  then show ?case by simp
next
  case (Cons x xs)
  show ?case
  proof (cases "snd x > m")
    case True
    with Cons.prems have f: "foldl reasonStep (snd x, displayName (fst x)) xs = (m', r')"
      by (simp add: reasonStep_eq)
    note ih = Cons.IH[OF f]
    show ?thesis
    proof (cases "\<forall>e\<in>set xs. snd e \<le> snd x")
      case all: True
      with ih have "m' = snd x" "r' = displayName (fst x)" by simp_all
      with True all have "x # xs = [] @ x # xs \<and> m < snd x
             \<and> (\<forall>y\<in>set []. snd y < snd x) \<and> (\<forall>y\<in>set xs. snd y \<le> snd x)
             \<and> m' = snd x \<and> r' = displayName (fst x)" by simp
      then have "\<exists>pre e post. x # xs = pre @ e # post \<and> m < snd e
             \<and> (\<forall>y\<in>set pre. snd y < snd e) \<and> (\<forall>y\<in>set post. snd y \<le> snd e)
             \<and> m' = snd e \<and> r' = displayName (fst e)" by blast
      with True show ?thesis by auto
    next
      case False
      with ih obtain pre e post where
        p: "xs = pre @ e # post" "snd x < snd e" "\<forall>y\<in>set pre. snd y < snd e"
           "\<forall>y\<in>set post. snd y \<le> snd e" "m' = snd e" "r' = displayName (fst e)"
        by auto
      with True have "x # xs = (x # pre) @ e # post \<and> m < snd e
             \<and> (\<forall>y\<in>set (x # pre). snd y < snd e) \<and> (\<forall>y\<in>set post. snd y \<le> snd e)
             \<and> m' = snd e \<and> r' = displayName (fst e)" by auto
      then have "\<exists>pre e post. x # xs = pre @ e # post \<and> m < snd e
             \<and> (\<forall>y\<in>set pre. snd y < snd e) \<and> (\<forall>y\<in>set post. snd y \<le> snd e)
             \<and> m' = snd e \<and> r' = displayName (fst e)" by blast
      with True show ?thesis by auto
    qed
  next
    case le: False
    with Cons.prems have f: "foldl reasonStep (m, r) xs = (m', r')"
      by (simp add: reasonStep_eq)
    note ih = Cons.IH[OF f]
    show ?thesis
    proof (cases "\<forall>e\<in>set xs. snd e \<le> m")
      case True
      with ih le show ?thesis by auto
    next
      case False
      with ih obtain pre e post where
        p: "xs = pre @ e # post" "m < snd e" "\<forall>y\<in>set pre. snd y < snd e"
           "\<forall>y\<in>set post. snd y \<le> snd e" "m' = snd e" "r' = displayName (fst e)"
        by auto
      with le have "x # xs = (x # pre) @ e # post \<and> m < snd e
             \<and> (\<forall>y\<in>set (x # pre). snd y < snd e) \<and> (\<forall>y\<in>set post. snd y \<le> snd e)
             \<and> m' = snd e \<and> r' = displayName (fst e)" by auto
      then have "\<exists>pre e post. x # xs = pre @ e # post \<and> m < snd e
             \<and> (\<forall>y\<in>set pre. snd y < snd e) \<and> (\<forall>y\<in>set post. snd y \<le> snd e)
             \<and> m' = snd e \<and> r' = displayName (fst e)" by blast
      with False show ?thesis by auto
    qed
  qed
qed

lemma evaluatePushHeuristics_fields:
  "confidence (evaluatePushHeuristics config state sid ctx)
     = (if heuristicScores (evaluatePushHeuristics config state sid ctx) = [] then 0
        else mathRound
               (real_of_int (sum_list (map snd (heuristicScores (evaluatePushHeuristics config state sid ctx))))
                / real (length (heuristicScores (evaluatePushHeuristics config state sid ctx)))))"
  "shouldPush (evaluatePushHeuristics config state sid ctx)
     = (pushThreshold config \<le> confidence (evaluatePushHeuristics config state sid ctx))"
  "primaryReason (evaluatePushHeuristics config state sid ctx)
     = snd (foldl reasonStep (0, ''No strong signals'')
              (heuristicScores (evaluatePushHeuristics config state sid ctx)))"
  "map fst (heuristicScores (evaluatePushHeuristics config state sid ctx))
     = filter (\<lambda>h. h \<in> set (enabledHeuristics config))
         [''failure_boundary'', ''context_switch'', ''complexity'', ''duration'']"
  by (simp_all add: evaluatePushHeuristics_def Let_def foldl_plus)

subsection \<open>Confidence, recommendation and primary reason\<close>

text \<open>
  C9, as stated, fails in the primary reason.  With the scores 80 and 20 and the threshold 40
  the reported reason is the text \<open>failure boundary\<close>, not the heuristic's name
  \<open>failure_boundary\<close>; and when every score is 0 the reported reason is \<open>No strong signals\<close>,
  which is no heuristic.
\<close>

theorem evaluatePushHeuristics_reason_label:
  "evaluatePushHeuristics (exAutonomy 40) exState ''A'' exPushContext
     = \<lparr>shouldPush = True, confidence = 50, suggestedGoal = Some ''fix the login now'',
        primaryReason = ''failure boundary'',
        heuristicScores = [(''failure_boundary'', 80), (''context_switch'', 20)]\<rparr>
   \<and> ''failure boundary'' \<noteq> ''failure_boundary''
   \<and> evaluatePushHeuristics (exAutonomy 70) exState ''A'' exQuietContext
     = \<lparr>shouldPush = False, confidence = 0, suggestedGoal = None,
        primaryReason = ''No strong signals'',
        heuristicScores = [(''failure_boundary'', 0), (''context_switch'', 0)]\<rparr>"
proof -
  have a: "evaluatePushHeuristics (exAutonomy 40) exState ''A'' exPushContext
     = \<lparr>shouldPush = True, confidence = 50, suggestedGoal = Some ''fix the login now'',
        primaryReason = ''failure boundary'',
        heuristicScores = [(''failure_boundary'', 80), (''context_switch'', 20)]\<rparr>"
    by code_simp
  have b: "evaluatePushHeuristics (exAutonomy 70) exState ''A'' exQuietContext
     = \<lparr>shouldPush = False, confidence = 0, suggestedGoal = None,
        primaryReason = ''No strong signals'',
        heuristicScores = [(''failure_boundary'', 0), (''context_switch'', 0)]\<rparr>"
    by code_simp
  from a b show ?thesis by simp
qed

text \<open>
  C9 (amended): the confidence is the rounded average of the scores of the enabled push
  heuristics (0 when none is enabled); a push is recommended exactly when the confidence is
  at or above the push threshold; the reported primary reason is the display name (the
  name with its first underscore replaced by a space) of the first heuristic with the
  highest score when some score is positive, and \<open>No strong signals\<close> when none is.  With the
  scores \<open>failure_boundary = 80\<close> and \<open>context_switch = 20\<close> the confidence is 50; with the
  threshold 70 no push is recommended, with the threshold 40 a push is recommended and the
  primary reason is \<open>failure boundary\<close>.
\<close>

theorem evaluatePushHeuristics_decision:
  assumes r: "r = evaluatePushHeuristics config state sid ctx"
  shows "confidence r
           = (if heuristicScores r = [] then 0
              else mathRound (real_of_int (sum_list (map snd (heuristicScores r)))
                              / real (length (heuristicScores r))))
    \<and> (shouldPush r \<longleftrightarrow> pushThreshold config \<le> confidence r)
    \<and> map fst (heuristicScores r)
        = filter (\<lambda>h. h \<in> set (enabledHeuristics config))
            [''failure_boundary'', ''context_switch'', ''complexity'', ''duration'']
    \<and> ((\<forall>e\<in>set (heuristicScores r). snd e \<le> 0) \<longrightarrow> primaryReason r = ''No strong signals'')
    \<and> ((\<exists>e\<in>set (heuristicScores r). 0 < snd e) \<longrightarrow>
          (\<exists>pre h s post. heuristicScores r = pre @ (h, s) # post
             \<and> (\<forall>x\<in>set pre. snd x < s) \<and> (\<forall>x\<in>set post. snd x \<le> s)
             \<and> primaryReason r = displayName h))
    \<and> (heuristicScores r = [(''failure_boundary'', 80), (''context_switch'', 20)] \<longrightarrow>
          confidence r = 50
          \<and> (pushThreshold config = 70 \<longrightarrow> \<not> shouldPush r)
          \<and> (pushThreshold config = 40 \<longrightarrow>
                shouldPush r \<and> primaryReason r = ''failure boundary''))"
proof -
  note f = evaluatePushHeuristics_fields[of config state sid ctx, folded r]
  obtain m' r' where fold: "foldl reasonStep (0, ''No strong signals'') (heuristicScores r) = (m', r')"
    by (cases "foldl reasonStep (0, ''No strong signals'') (heuristicScores r)") auto
  have pr: "primaryReason r = r'" by (simp add: f(3) fold)
  note rf = reason_fold[OF fold]
  have c4: "(\<forall>e\<in>set (heuristicScores r). snd e \<le> 0) \<longrightarrow> primaryReason r = ''No strong signals''"
    using rf pr by auto
  have c5: "(\<exists>e\<in>set (heuristicScores r). 0 < snd e) \<longrightarrow>
          (\<exists>pre h s post. heuristicScores r = pre @ (h, s) # post
             \<and> (\<forall>x\<in>set pre. snd x < s) \<and> (\<forall>x\<in>set post. snd x \<le> s)
             \<and> primaryReason r = displayName h)"
  proof
    assume "\<exists>e\<in>set (heuristicScores r). 0 < snd e"
    then have "\<not> (\<forall>e\<in>set (heuristicScores r). snd e \<le> 0)" by force
    with rf obtain pre e post where
      "heuristicScores r = pre @ e # post" "\<forall>x\<in>set pre. snd x < snd e"
      "\<forall>x\<in>set post. snd x \<le> snd e" "r' = displayName (fst e)"
      by auto
    with pr have "heuristicScores r = pre @ (fst e, snd e) # post
             \<and> (\<forall>x\<in>set pre. snd x < snd e) \<and> (\<forall>x\<in>set post. snd x \<le> snd e)
             \<and> primaryReason r = displayName (fst e)" by simp
    then show "\<exists>pre h s post. heuristicScores r = pre @ (h, s) # post
             \<and> (\<forall>x\<in>set pre. snd x < s) \<and> (\<forall>x\<in>set post. snd x \<le> s)
             \<and> primaryReason r = displayName h" by blast
  qed
  have c6: "heuristicScores r = [(''failure_boundary'', 80), (''context_switch'', 20)] \<longrightarrow>
          confidence r = 50
          \<and> (pushThreshold config = 70 \<longrightarrow> \<not> shouldPush r)
          \<and> (pushThreshold config = 40 \<longrightarrow>
                shouldPush r \<and> primaryReason r = ''failure boundary'')"
  proof
    assume h: "heuristicScores r = [(''failure_boundary'', 80), (''context_switch'', 20)]"
    have conf: "confidence r = 50"
      by (simp add: f(1) h mathRound_def)
    have reason: "primaryReason r = ''failure boundary''"
      by (simp add: f(3) h reasonStep_def)
    from conf reason f(2) show "confidence r = 50
          \<and> (pushThreshold config = 70 \<longrightarrow> \<not> shouldPush r)
          \<and> (pushThreshold config = 40 \<longrightarrow>
                shouldPush r \<and> primaryReason r = ''failure boundary'')" by simp
  qed
  from f(1) f(2) f(4) c4 c5 c6 show ?thesis by blast
qed

text \<open>The scenario on signals that produce the two scores, with the thresholds 70 and 40.\<close>

theorem evaluatePushHeuristics_decision_witness:
  "heuristicScores (evaluatePushHeuristics (exAutonomy 70) exState ''A'' exPushContext)
     = [(''failure_boundary'', 80), (''context_switch'', 20)]
   \<and> confidence (evaluatePushHeuristics (exAutonomy 70) exState ''A'' exPushContext) = 50
   \<and> \<not> shouldPush (evaluatePushHeuristics (exAutonomy 70) exState ''A'' exPushContext)
   \<and> heuristicScores (evaluatePushHeuristics (exAutonomy 40) exState ''A'' exPushContext)
     = [(''failure_boundary'', 80), (''context_switch'', 20)]
   \<and> shouldPush (evaluatePushHeuristics (exAutonomy 40) exState ''A'' exPushContext)
   \<and> primaryReason (evaluatePushHeuristics (exAutonomy 40) exState ''A'' exPushContext)
     = ''failure boundary''"
proof -
  have a: "heuristicScores (evaluatePushHeuristics (exAutonomy 70) exState ''A'' exPushContext)
     = [(''failure_boundary'', 80), (''context_switch'', 20)]"
    by code_simp
  have b: "heuristicScores (evaluatePushHeuristics (exAutonomy 40) exState ''A'' exPushContext)
     = [(''failure_boundary'', 80), (''context_switch'', 20)]"
    by code_simp
  have t70: "pushThreshold (exAutonomy 70) = 70" and t40: "pushThreshold (exAutonomy 40) = 40"
    by (simp_all add: exAutonomy_def)
  from evaluatePushHeuristics_decision[OF refl, of "exAutonomy 70" exState "''A''" exPushContext]
       evaluatePushHeuristics_decision[OF refl, of "exAutonomy 40" exState "''A''" exPushContext]
       a b t70 t40
  show ?thesis by simp
qed

section \<open>The context cache\<close>

subsection \<open>The entry just stored survives the eviction\<close>




lemma update_new_key:
  "k \<notin> fst ` set al \<Longrightarrow> AList.update k v al = al @ [(k, v)]"
  by (induction al) auto

lemma update_old_key_length:
  "k \<in> fst ` set al \<Longrightarrow> length (AList.update k v al) = length al"
  by (induction al) auto








subsection \<open>The invariant of the cache is kept\<close>

lemma fold_delete_filter:
  "fold (\<lambda>(key, e). AList.delete key) ds c = filter (\<lambda>p. fst p \<notin> fst ` set ds) c"
proof (induction ds arbitrary: c)
  case Nil
  then show ?case by simp
next
  case (Cons d ds)
  have "AList.delete (fst d) c = filter (\<lambda>p. fst p \<noteq> fst d) c"
    by (induction c) auto
  then show ?case
    by (cases d) (auto simp: Cons.IH intro: filter_cong)
qed


lemma cacheInvariant_empty: "cacheInvariant now (rt\<lparr>contextCache := []\<rparr>)"
  by (simp add: cacheInvariant_def)

lemma cacheInvariant_later: "cacheInvariant now rt \<Longrightarrow> now \<le> now' \<Longrightarrow> cacheInvariant now' rt"
  by (auto simp: cacheInvariant_def list_all_iff)

lemma delete_as_filter: "AList.delete k al = filter (\<lambda>p. fst p \<noteq> k) al"
  by (induction al) auto

lemma cacheInvariant_invalidateCache:
  assumes "cacheInvariant now rt"
  shows "cacheInvariant now (invalidateCache rt sid)"
proof -
  from assms have "length (contextCache rt) \<le> 50" by (simp add: cacheInvariant_def)
  then have "length (filter (\<lambda>p. fst p \<noteq> sid) (contextCache rt)) \<le> 50"
    by (rule le_trans[OF length_filter_le])
  with assms show ?thesis
    by (auto simp: cacheInvariant_def invalidateCache_def list_all_iff delete_as_filter
          distinct_map_filter)
qed

lemma cacheInvariant_cacheContext:
  assumes inv: "cacheInvariant now rt"
  shows "cacheInvariant now (cacheContext rt now sid ctx hash tokens)"
proof -
  let ?entry = "\<lparr>contextText = ctx, cacheCreatedAt = now, cacheSessionID = sid,
                  stateHash = hash, tokenCount = tokens\<rparr>"
  let ?cache = "contextCache rt"
  let ?cache1 = "AList.update sid ?entry ?cache"
  let ?sorted = "jsSort (\<lambda>a b. cacheAgeCompare a b \<le> 0) ?cache1"
  let ?del = "take (length ?sorted - 25) ?sorted"
  from inv have len: "length ?cache \<le> 50" and d: "distinct (map fst ?cache)"
    and old: "\<And>y. y \<in> set ?cache \<Longrightarrow> cacheCreatedAt (snd y) \<le> now"
    by (auto simp: cacheInvariant_def list_all_iff)
  have d1: "distinct (map fst ?cache1)" using d by (rule distinct_update)
  have old1: "\<And>y. y \<in> set ?cache1 \<Longrightarrow> cacheCreatedAt (snd y) \<le> now"
    using old update_entries[of sid ?entry ?cache] by auto
  show ?thesis
  proof (cases "length ?cache1 > 50")
    case False
    with d1 old1 show ?thesis
      by (auto simp: cacheInvariant_def cacheContext_def Let_def list_all_iff)
  next
    case True
    have c2: "contextCache (cacheContext rt now sid ctx hash tokens)
              = filter (\<lambda>p. fst p \<notin> fst ` set ?del) ?cache1"
      using True by (simp add: cacheContext_def Let_def fold_delete_filter)
    have "length ?cache1 \<le> 51"
      using len by (cases "sid \<in> fst ` set ?cache")
                   (simp_all add: update_old_key_length update_new_key)
    moreover
    have "?sorted \<noteq> []" using True by (metis length_jsSort list.size(3) not_less0)
    then have "?del \<noteq> []" using True by (simp add: length_jsSort)
    then obtain h where h: "h \<in> set ?del" by (cases ?del) auto
    then have "h \<in> set ?cache1" using set_take_subset[of "length ?sorted - 25" ?sorted]
      by (auto simp: set_jsSort)
    with h have "length (filter (\<lambda>p. fst p \<notin> fst ` set ?del) ?cache1) < length ?cache1"
      by (intro length_filter_less[of h]) auto
    ultimately have l: "length (filter (\<lambda>p. fst p \<notin> fst ` set ?del) ?cache1) \<le> 50" by simp
    from d1 have d2: "distinct (map fst (filter (\<lambda>p. fst p \<notin> fst ` set ?del) ?cache1))"
      by (rule distinct_map_filter)
    show ?thesis
      unfolding cacheInvariant_def c2
    proof (intro conjI)
      show "length (filter (\<lambda>p. fst p \<notin> fst ` set ?del) ?cache1) \<le> 50" by (rule l)
      show "distinct (map fst (filter (\<lambda>p. fst p \<notin> fst ` set ?del) ?cache1))" by (rule d2)
      show "list_all (\<lambda>(key, e). cacheCreatedAt e \<le> now)
              (filter (\<lambda>p. fst p \<notin> fst ` set ?del) ?cache1)"
        using old1 by (auto simp: list_all_iff)
    qed
  qed
qed

subsection \<open>Hit and miss\<close>



end
